theory Spec2Isabelle
  imports Main "HOL-Library.Sublist"
begin

section \<open>Python strings\<close>

text \<open>
  A Python \<open>str\<close> is a sequence of code points. The model uses \<^typ>\<open>string\<close>, whose
  characters are the code points U+0000 to U+00FF. The character classes below are the ones
  CPython uses on that range: \<open>str.isspace\<close> (also the class \<open>\s\<close> of \<open>re\<close> on
  \<open>str\<close> patterns), the class \<open>\w\<close> of \<open>re\<close>, and \<open>str.lower\<close>.
\<close>

definition isspace :: "char \<Rightarrow> bool" where
  "isspace c = (c \<in> set [CHR 0x09, CHR 0x0A, CHR 0x0B, CHR 0x0C, CHR 0x0D,
                           CHR 0x1C, CHR 0x1D, CHR 0x1E, CHR 0x1F, CHR 0x20,
                           CHR 0x85, CHR 0xA0])"

definition in_range :: "nat \<Rightarrow> nat \<Rightarrow> char \<Rightarrow> bool" where
  "in_range lo hi c = (lo \<le> of_char c \<and> (of_char c :: nat) \<le> hi)"

definition isword :: "char \<Rightarrow> bool" where
  \<comment> \<open>\<open>\w\<close>: alphanumeric code points and the underscore\<close>
  "isword c = (in_range 0x30 0x39 c \<or> in_range 0x41 0x5A c \<or> c = CHR 0x5F
               \<or> in_range 0x61 0x7A c
               \<or> c \<in> set [CHR 0xAA, CHR 0xB2, CHR 0xB3, CHR 0xB5, CHR 0xB9, CHR 0xBA,
                             CHR 0xBC, CHR 0xBD, CHR 0xBE]
               \<or> in_range 0xC0 0xD6 c \<or> in_range 0xD8 0xF6 c \<or> in_range 0xF8 0xFF c)"

definition lower_char :: "char \<Rightarrow> char" where
  "lower_char c = (if in_range 0x41 0x5A c \<or> in_range 0xC0 0xD6 c \<or> in_range 0xD8 0xDE c
                   then char_of (of_char c + (32::nat)) else c)"

definition lower :: "string \<Rightarrow> string" where
  \<comment> \<open>\<open>s.lower()\<close>\<close>
  "lower s = map lower_char s"

definition strip :: "string \<Rightarrow> string" where
  \<comment> \<open>\<open>s.strip()\<close>: whitespace removed at both ends\<close>
  "strip s = rev (dropWhile isspace (rev (dropWhile isspace s)))"

fun contains :: "string \<Rightarrow> string \<Rightarrow> bool" where
  \<comment> \<open>\<open>xs in ys\<close> on strings: \<open>xs\<close> occurs in \<open>ys\<close> as a contiguous substring\<close>
  "contains xs [] = (xs = [])"
| "contains xs (y # ys) = (prefix xs (y # ys) \<or> contains xs ys)"

fun join :: "string \<Rightarrow> string list \<Rightarrow> string" where
  \<comment> \<open>\<open>sep.join(parts)\<close>\<close>
  "join sep [] = []"
| "join sep [p] = p"
| "join sep (p # q # ps) = p @ sep @ join sep (q # ps)"

function split :: "string \<Rightarrow> string \<Rightarrow> string list" where
  \<comment> \<open>\<open>s.split(sep)\<close> for a non-empty separator: the occurrences of \<open>sep\<close> are found
      from the left and do not overlap. Python raises \<open>ValueError\<close> on an empty separator;
      the program only splits on a literal, so that case is given the unsplit string.\<close>
  "split sep s =
     (if sep = [] then [s]
      else if s = [] then [[]]
      else if prefix sep s then [] # split sep (drop (length sep) s)
      else (case split sep (tl s) of
              [] \<Rightarrow> [[hd s]]
            | p # ps \<Rightarrow> (hd s # p) # ps))"
  by pat_completeness auto
termination
  by (relation "measure (\<lambda>(sep, s). length s)") auto

declare split.simps [simp del]

definition nl :: string where
  "nl = [CHR 0x0A]"

section \<open>Catalog matcher\<close>

text \<open>
  One search hit, as far as \<open>_search_genius\<close> reads it:
  \<open>hit["result"]["primary_artist"]["name"]\<close> and \<open>hit["result"]["id"]\<close>.
\<close>

record hit =
  primary_artist_name :: string
  result_id :: int

fun first_match :: "string \<Rightarrow> hit list \<Rightarrow> int option" where
  \<comment> \<open>the \<open>for hit in hits\<close> loop, \<open>None\<close> when it runs to its end\<close>
  "first_match artist_lower [] = None"
| "first_match artist_lower (h # hs) =
     (let primary_artist = lower (primary_artist_name h)
      in if artist_lower \<noteq> [] \<and> contains artist_lower primary_artist
         then Some (result_id h)
         else first_match artist_lower hs)"

definition select_hit :: "string \<Rightarrow> hit list \<Rightarrow> int option" where
  \<comment> \<open>\<open>_search_genius\<close> from \<open>artist_lower = artist.lower()\<close> to its end\<close>
  "select_hit artist hits =
     (let artist_lower = lower artist
      in case first_match artist_lower hits of
           Some i \<Rightarrow> Some i
         | None \<Rightarrow> (if hits \<noteq> [] then Some (result_id (hd hits)) else None))"

section \<open>Exceptions\<close>

text \<open>
  Exceptions the program raises or lets through. \<open>sys.exit(n)\<close> raises \<open>SystemExit\<close>.
  The string is the exception's message, \<open>str(e)\<close>. An \<open>OSError\<close> also carries the name of
  its class, which may be a subclass such as \<open>FileNotFoundError\<close>.
\<close>

datatype exn =
    ValueError string
  | HTTPError string
  | RequestException string
  | KeyError string
  | TypeError string
  | AttributeError string
  | OSError string string
  | SystemExit nat

section \<open>Structured values\<close>

text \<open>
  What \<open>response.json()\<close> gives: \<open>None\<close>, booleans, integers, strings, lists, and
  dictionaries with string keys, in insertion order, every key once. Floats are not modelled.
\<close>

datatype json =
    JNull
  | JBool bool
  | JInt int
  | JStr string
  | JArr "json list"
  | JObj "(string \<times> json) list"

type_synonym song = "(string \<times> json) list"

fun truthy :: "json \<Rightarrow> bool" where
  \<comment> \<open>the truth value of an object, as \<open>if x\<close> and \<open>not x\<close> take it\<close>
  "truthy JNull = False"
| "truthy (JBool b) = b"
| "truthy (JInt i) = (i \<noteq> 0)"
| "truthy (JStr s) = (s \<noteq> [])"
| "truthy (JArr xs) = (xs \<noteq> [])"
| "truthy (JObj kvs) = (kvs \<noteq> [])"

definition dict_get :: "(string \<times> json) list \<Rightarrow> string \<Rightarrow> json \<Rightarrow> json" where
  \<comment> \<open>\<open>d.get(k, default)\<close>\<close>
  "dict_get d k dflt = (case map_of d k of None \<Rightarrow> dflt | Some v \<Rightarrow> v)"

fun dict_set :: "string \<Rightarrow> json \<Rightarrow> (string \<times> json) list \<Rightarrow> (string \<times> json) list" where
  \<comment> \<open>\<open>d[k] = v\<close>: an existing key keeps its place, a new one goes last\<close>
  "dict_set k v [] = [(k, v)]"
| "dict_set k v (p # ps) = (if fst p = k then (k, v) # ps else p # dict_set k v ps)"

definition digit_char :: "nat \<Rightarrow> char" where
  "digit_char d = char_of (48 + d)"

function str_nat :: "nat \<Rightarrow> string" where
  "str_nat n = (if n < 10 then [digit_char n] else str_nat (n div 10) @ [digit_char (n mod 10)])"
  by pat_completeness auto
termination
  by (relation "measure id") auto

declare str_nat.simps [simp del]

definition str_int :: "int \<Rightarrow> string" where
  "str_int i = (if i < 0 then CHR ''-'' # str_nat (nat (- i)) else str_nat (nat i))"

definition hex_digit :: "nat \<Rightarrow> char" where
  "hex_digit d = (if d < 10 then char_of (48 + d) else char_of (87 + d))"

definition hex2 :: "char \<Rightarrow> string" where
  "hex2 c = [hex_digit ((of_char c :: nat) div 16), hex_digit ((of_char c :: nat) mod 16)]"

definition isprintable :: "char \<Rightarrow> bool" where
  \<comment> \<open>\<open>str.isprintable\<close> on U+0000 to U+00FF\<close>
  "isprintable c = (in_range 0x20 0x7E c \<or> (in_range 0xA1 0xFF c \<and> c \<noteq> CHR 0xAD))"

definition repr_char :: "char \<Rightarrow> char \<Rightarrow> string" where
  "repr_char quote c =
     (if c = CHR 0x5C then [CHR 0x5C, CHR 0x5C]
      else if c = quote then [CHR 0x5C, quote]
      else if c = CHR 0x09 then [CHR 0x5C, CHR ''t'']
      else if c = CHR 0x0A then [CHR 0x5C, CHR ''n'']
      else if c = CHR 0x0D then [CHR 0x5C, CHR ''r'']
      else if isprintable c then [c]
      else [CHR 0x5C, CHR ''x''] @ hex2 c)"

definition repr_str :: "string \<Rightarrow> string" where
  \<comment> \<open>\<open>repr(s)\<close>: double quotes only when \<open>s\<close> has a single quote and no double quote\<close>
  "repr_str s =
     (let quote = (if CHR 0x27 \<in> set s \<and> CHR 0x22 \<notin> set s then CHR 0x22 else CHR 0x27)
      in [quote] @ concat (map (repr_char quote) s) @ [quote])"

fun repr :: "json \<Rightarrow> string" where
  "repr JNull = ''None''"
| "repr (JBool b) = (if b then ''True'' else ''False'')"
| "repr (JInt i) = str_int i"
| "repr (JStr s) = repr_str s"
| "repr (JArr xs) = ''['' @ join '', '' (map repr xs) @ '']''"
| "repr (JObj kvs) =
     ''{'' @ join '', '' (map (\<lambda>(k, v). repr_str k @ '': '' @ repr v) kvs) @ ''}''"

definition str :: "json \<Rightarrow> string" where
  \<comment> \<open>\<open>str(x)\<close>, which an f-string applies to the value it formats\<close>
  "str x = (case x of JStr s \<Rightarrow> s | _ \<Rightarrow> repr x)"

fun exn_str :: "exn \<Rightarrow> string" where
  \<comment> \<open>\<open>str(e)\<close>; a \<open>KeyError\<close> shows the \<open>repr\<close> of its key\<close>
  "exn_str (ValueError m) = m"
| "exn_str (HTTPError m) = m"
| "exn_str (RequestException m) = m"
| "exn_str (KeyError k) = repr_str k"
| "exn_str (TypeError m) = m"
| "exn_str (AttributeError m) = m"
| "exn_str (OSError c m) = m"
| "exn_str (SystemExit n) = str_nat n"

definition subscript :: "json \<Rightarrow> string \<Rightarrow> exn + json" where
  \<comment> \<open>\<open>x[k]\<close> with a string key: only a dictionary that has the key gives a value\<close>
  "subscript x k =
     (case x of
        JObj d \<Rightarrow> (case map_of d k of None \<Rightarrow> Inl (KeyError k) | Some v \<Rightarrow> Inr v)
      | JStr s \<Rightarrow> Inl (TypeError ''string indices must be integers'')
      | JArr xs \<Rightarrow> Inl (TypeError ''list indices must be integers or slices, not str'')
      | _ \<Rightarrow> Inl (TypeError ''object is not subscriptable''))"

fun type_name :: "json \<Rightarrow> string" where
  \<comment> \<open>\<open>type(x).__name__\<close>\<close>
  "type_name JNull = ''NoneType''"
| "type_name (JBool b) = ''bool''"
| "type_name (JInt i) = ''int''"
| "type_name (JStr s) = ''str''"
| "type_name (JArr xs) = ''list''"
| "type_name (JObj kvs) = ''dict''"

definition no_attribute :: "json \<Rightarrow> string \<Rightarrow> exn" where
  \<comment> \<open>what \<open>x.name\<close> raises when the type of \<open>x\<close> has no such attribute\<close>
  "no_attribute x name =
     AttributeError ([CHR 0x27] @ type_name x @ [CHR 0x27] @ '' object has no attribute ''
                     @ [CHR 0x27] @ name @ [CHR 0x27])"

subsection \<open>Serialisation\<close>

text \<open>\<open>json.dumps(x, ensure_ascii=False, indent=2)\<close>.\<close>

definition dumps_char :: "char \<Rightarrow> string" where
  "dumps_char c =
     (if c = CHR 0x22 then [CHR 0x5C, CHR 0x22]
      else if c = CHR 0x5C then [CHR 0x5C, CHR 0x5C]
      else if c = CHR 0x0A then [CHR 0x5C, CHR ''n'']
      else if c = CHR 0x0D then [CHR 0x5C, CHR ''r'']
      else if c = CHR 0x09 then [CHR 0x5C, CHR ''t'']
      else if c = CHR 0x08 then [CHR 0x5C, CHR ''b'']
      else if c = CHR 0x0C then [CHR 0x5C, CHR ''f'']
      else if in_range 0 0x1F c then [CHR 0x5C, CHR ''u'', CHR ''0'', CHR ''0''] @ hex2 c
      else [c])"

definition dumps_str :: "string \<Rightarrow> string" where
  "dumps_str s = [CHR 0x22] @ concat (map dumps_char s) @ [CHR 0x22]"

definition indent :: "nat \<Rightarrow> string" where
  \<comment> \<open>a line break and the indentation of nesting level \<open>level\<close>\<close>
  "indent level = nl @ replicate (2 * level) CHR '' ''"

fun dumps_at :: "nat \<Rightarrow> json \<Rightarrow> string" where
  "dumps_at level JNull = ''null''"
| "dumps_at level (JBool b) = (if b then ''true'' else ''false'')"
| "dumps_at level (JInt i) = str_int i"
| "dumps_at level (JStr s) = dumps_str s"
| "dumps_at level (JArr xs) =
     (if xs = [] then ''[]''
      else ''['' @ indent (Suc level)
           @ join ('','' @ indent (Suc level)) (map (dumps_at (Suc level)) xs)
           @ indent level @ '']'')"
| "dumps_at level (JObj kvs) =
     (if kvs = [] then ''{}''
      else ''{'' @ indent (Suc level)
           @ join ('','' @ indent (Suc level))
               (map (\<lambda>(k, v). dumps_str k @ '': '' @ dumps_at (Suc level) v) kvs)
           @ indent level @ ''}'')"

definition dumps :: "json \<Rightarrow> string" where
  "dumps x = dumps_at 0 x"

section \<open>Metadata extractor\<close>

text \<open>
  What the oEmbed request of a metadata extractor gives. \<open>requests.get\<close> or
  \<open>raise_for_status\<close> raises a \<open>RequestException\<close>; or \<open>response.json()\<close> raises because the
  body is no JSON text; or the body is decoded, to any value. What \<open>response.json()\<close> raises
  depends on the version of \<open>requests\<close>: from 2.27 on it is
  \<open>requests.exceptions.JSONDecodeError\<close>, a \<open>RequestException\<close>, which the first handler of the
  extractor takes, so that this failure is an \<open>OembedRequestException\<close> too; before, it is a
  \<open>json.JSONDecodeError\<close> that is no \<open>RequestException\<close>, for the second handler.
\<close>

datatype oembed_response =
    OembedRequestException string
  | OembedJSONDecodeError string
  | OembedData json

text \<open>
  A response of the catalog API: no response at all (\<open>requests.get\<close> raises), a status for
  which \<open>raise_for_status\<close> raises \<open>HTTPError\<close> (status code and message), or the
  parsed body.
\<close>

datatype 'a api_response =
    NoResponse string
  | HTTPFailure nat string
  | HTTPSuccess 'a

datatype request =
    OembedRequest string
  | SearchRequest string string
  | SongRequest string int
  | PageRequest string

datatype fs_op = MakeDirs string | WriteFile string string

text \<open>
  The effects of a run: what was written to the two streams, requested and stored. The
  streams take every string: their encoding has all the characters of the model.
\<close>

record io =
  stdout :: "string list"
  stderr :: "string list"
  sent :: "request list"
  fs :: "fs_op list"

definition io0 :: io where
  "io0 = \<lparr>stdout = [], stderr = [], sent = [], fs = []\<rparr>"

definition write_stderr :: "string \<Rightarrow> io \<Rightarrow> io" where
  "write_stderr m s = s\<lparr>stderr := stderr s @ [m]\<rparr>"

definition write_stdout :: "string \<Rightarrow> io \<Rightarrow> io" where
  "write_stdout m s = s\<lparr>stdout := stdout s @ [m]\<rparr>"

definition send :: "request \<Rightarrow> io \<Rightarrow> io" where
  "send r s = s\<lparr>sent := sent s @ [r]\<rparr>"

definition title_sep :: string where
  "title_sep = '' - ''"

text \<open>
  In both extractors \<open>data.get\<close> needs a dictionary and \<open>title.split\<close> a string: on any other
  value the attribute lookup raises \<open>AttributeError\<close>, which neither handler takes.
\<close>

definition get_spotify_metadata ::
  "(string \<Rightarrow> oembed_response) \<Rightarrow> string \<Rightarrow> io \<Rightarrow> (exn + string \<times> string) \<times> io" where
  "get_spotify_metadata oembed url s =
     (let target = ''https://open.spotify.com/oembed?url='' @ url;
          s' = send (OembedRequest target) s
      in case oembed target of
           OembedRequestException e \<Rightarrow>
             (Inl (ValueError (''Invalid or unreachable Spotify URL: '' @ e)), s')
         | OembedJSONDecodeError e \<Rightarrow>
             (Inl (ValueError (''Malformed Spotify response: '' @ e)), s')
         | OembedData (JObj d) \<Rightarrow>
             (let title = dict_get d ''title'' JNull
              in if \<not> truthy title then
                   (Inl (ValueError ''Invalid Spotify metadata: title not found.''), s')
                 else
                   (case title of
                      JStr t \<Rightarrow>
                        (let parts = map strip (split title_sep t)
                         in if length parts \<ge> 2 then (Inr (hd parts, last parts), s')
                            else (Inr (t, []), s'))
                    | _ \<Rightarrow> (Inl (no_attribute title ''split''), s')))
         | OembedData data \<Rightarrow> (Inl (no_attribute data ''get''), s'))"

definition get_soundcloud_metadata ::
  "(string \<Rightarrow> oembed_response) \<Rightarrow> string \<Rightarrow> io \<Rightarrow> (exn + string \<times> string) \<times> io" where
  "get_soundcloud_metadata oembed url s =
     (let target = ''https://soundcloud.com/oembed?format=json&url='' @ url;
          s' = send (OembedRequest target) s
      in case oembed target of
           OembedRequestException e \<Rightarrow>
             (Inl (ValueError (''Invalid or unreachable SoundCloud URL: '' @ e)), s')
         | OembedJSONDecodeError e \<Rightarrow>
             (Inl (ValueError (''Malformed SoundCloud response: '' @ e)), s')
         | OembedData (JObj d) \<Rightarrow>
             (let title = dict_get d ''title'' JNull
              in if \<not> truthy title then
                   (Inl (ValueError ''Invalid SoundCloud metadata: title not found.''), s')
                 else
                   (case title of
                      JStr t \<Rightarrow>
                        (let parts = map strip (split title_sep t)
                         in if length parts \<ge> 2
                            then (Inr (join title_sep (tl parts), hd parts), s')
                            else (Inr (t, []), s'))
                    | _ \<Rightarrow> (Inl (no_attribute title ''split''), s')))
         | OembedData data \<Rightarrow> (Inl (no_attribute data ''get''), s'))"

section \<open>Lyrics extractor\<close>

text \<open>
  The parsed page. An element is a Python object that the program holds references to and
  changes in place, so each one carries its identity: a number that no other element of the
  page has. Text and comments are never referred to. An element has its tag name, its
  attributes (the dictionary the parser built, every name once) and its children.
\<close>

datatype node =
    Text string
  | Comment string
  | Element nat string "(string \<times> string) list" "node list"

fun node_id :: "node \<Rightarrow> nat option" where
  "node_id (Element i tag attrs cs) = Some i"
| "node_id n = None"

fun descendants :: "node \<Rightarrow> node list" where
  \<comment> \<open>\<open>tag.descendants\<close>: everything below the node, in document order\<close>
  "descendants (Element i tag attrs cs) = concat (map (\<lambda>c. c # descendants c) cs)"
| "descendants n = []"

definition is_lyrics_container :: "node \<Rightarrow> bool" where
  \<comment> \<open>the filter of \<open>find_all\<close> for \<open>div\<close> elements whose attribute
      \<open>data-lyrics-container\<close> is \<open>true\<close>\<close>
  "is_lyrics_container n =
     (case n of
        Element i tag attrs cs \<Rightarrow>
          tag = ''div'' \<and> map_of attrs ''data-lyrics-container'' = Some ''true''
      | _ \<Rightarrow> False)"

definition is_excluded :: "node \<Rightarrow> bool" where
  \<comment> \<open>the filter of \<open>find_all\<close> for the attribute \<open>data-exclude-from-selection\<close>
      set to \<open>True\<close>: the attribute is there, whatever its value\<close>
  "is_excluded n =
     (case n of
        Element i tag attrs cs \<Rightarrow> map_of attrs ''data-exclude-from-selection'' \<noteq> None
      | _ \<Rightarrow> False)"

definition find_all :: "(node \<Rightarrow> bool) \<Rightarrow> node \<Rightarrow> nat list" where
  \<comment> \<open>references to the matching elements below the node, in document order\<close>
  "find_all P n = List.map_filter node_id (filter P (descendants n))"

text \<open>
  The objects alive during the loop: the page, and every element taken out of its parent,
  which stays reachable through the references found before.
\<close>

definition deref :: "nat \<Rightarrow> node list \<Rightarrow> node option" where
  \<comment> \<open>the element behind a reference, as it is now\<close>
  "deref i roots =
     List.find (\<lambda>n. node_id n = Some i) (concat (map (\<lambda>r. r # descendants r) roots))"

fun remove_id :: "nat \<Rightarrow> node \<Rightarrow> node" where
  \<comment> \<open>the node without the element \<open>e\<close> below it\<close>
  "remove_id e (Element i tag attrs cs) =
     Element i tag attrs (map (remove_id e) (filter (\<lambda>c. node_id c \<noteq> Some e) cs))"
| "remove_id e n = n"

definition extract_element :: "nat \<Rightarrow> node list \<Rightarrow> node list" where
  \<comment> \<open>\<open>element.extract()\<close>: the element leaves its parent and stands alone;
      an element without a parent stays as it is\<close>
  "extract_element e roots =
     (case deref e roots of
        None \<Rightarrow> roots
      | Some n \<Rightarrow> if Some e \<in> set (map node_id roots) then roots
                  else map (remove_id e) roots @ [n])"

definition get_text :: "string \<Rightarrow> node \<Rightarrow> string" where
  \<comment> \<open>\<open>tag.get_text(separator=sep)\<close>: the text nodes below the tag, joined; comments are
      left out\<close>
  "get_text sep n = join sep (List.map_filter (\<lambda>d. case d of Text t \<Rightarrow> Some t | _ \<Rightarrow> None)
                                (descendants n))"

definition scrape_container :: "nat \<Rightarrow> node list \<times> string list \<Rightarrow> node list \<times> string list" where
  \<comment> \<open>one round of \<open>for container in lyrics_containers\<close>, on the live objects and
      \<open>lyrics_lines\<close>\<close>
  "scrape_container c st =
     (case st of (roots, lyrics_lines) \<Rightarrow>
        (case deref c roots of
           None \<Rightarrow> (roots, lyrics_lines)
         | Some container \<Rightarrow>
             let roots' = fold extract_element (find_all is_excluded container) roots
             in (case deref c roots' of
                   None \<Rightarrow> (roots', lyrics_lines)
                 | Some container' \<Rightarrow>
                     let text = strip (get_text nl container')
                     in if text \<noteq> [] then (roots', lyrics_lines @ [text])
                        else (roots', lyrics_lines))))"

definition page_lyrics :: "node \<Rightarrow> string" where
  \<comment> \<open>\<open>_scrape_genius_lyrics\<close> on the parsed page \<open>soup\<close>\<close>
  "page_lyrics soup =
     (let lyrics_containers = find_all is_lyrics_container soup;
          (roots, lyrics_lines) = fold scrape_container lyrics_containers ([soup], [])
      in join nl lyrics_lines)"

text \<open>
  The lyrics page: \<open>requests.get\<close> or \<open>raise_for_status\<close> raises a
  \<open>RequestException\<close> with the given message, or the body is parsed. What is requested
  is whatever the song record holds under \<open>url\<close>.
\<close>

datatype page_response = PageFailure string | Page node

definition scrape_genius_lyrics ::
  "(json \<Rightarrow> page_response) \<Rightarrow> json \<Rightarrow> io \<Rightarrow> (exn + string) \<times> io" where
  "scrape_genius_lyrics get_page url s =
     (let s' = send (PageRequest (str url)) s
      in case get_page url of
           PageFailure e \<Rightarrow> (Inl (RequestException e), s')
         | Page soup \<Rightarrow> (Inr (page_lyrics soup), s'))"

section \<open>Catalog requests\<close>

definition search_genius ::
  "(string \<Rightarrow> string \<Rightarrow> hit list api_response) \<Rightarrow> string \<Rightarrow> string \<Rightarrow> string \<Rightarrow> io
     \<Rightarrow> (exn + int option) \<times> io" where
  "search_genius api track artist token s =
     (let query = strip (track @ '' '' @ artist);
          s' = send (SearchRequest token query) s
      in case api token query of
           NoResponse e \<Rightarrow> (Inl (RequestException e), s')
         | HTTPFailure status_code e \<Rightarrow>
             if status_code = 401 then
               (Inl (SystemExit 1),
                write_stderr (''[ERROR] Invalid Genius API access token: '' @ e) s')
             else (Inl (HTTPError e), s')
         | HTTPSuccess hits \<Rightarrow> (Inr (select_hit artist hits), s'))"

definition get_genius_song ::
  "(string \<Rightarrow> int \<Rightarrow> song api_response) \<Rightarrow> int \<Rightarrow> string \<Rightarrow> io \<Rightarrow> (exn + song) \<times> io" where
  "get_genius_song api song_id token s =
     (let s' = send (SongRequest token song_id) s
      in case api token song_id of
           NoResponse e \<Rightarrow> (Inl (RequestException e), s')
         | HTTPFailure status_code e \<Rightarrow>
             if status_code = 401 then
               (Inl (SystemExit 1),
                write_stderr
                  (''[ERROR] Invalid Genius API access token (HTTP 401 Unauthorized).'' @ nl) s')
             else (Inl (HTTPError e), s')
         | HTTPSuccess song \<Rightarrow> (Inr song, s'))"

section \<open>Result composer\<close>

definition print_metadata :: "song \<Rightarrow> exn + string" where
  "print_metadata song =
     (case subscript (JObj song) ''primary_artist'' of
        Inl e \<Rightarrow> Inl e
      | Inr primary_artist \<Rightarrow>
     (case subscript primary_artist ''name'' of
        Inl e \<Rightarrow> Inl e
      | Inr name \<Rightarrow>
     (let parts = [''Title : '' @ str (dict_get song ''title'' JNull),
                   ''Artist: '' @ str name]
      in case (if truthy (dict_get song ''album'' JNull)
               then (case subscript (JObj song) ''album'' of
                       Inl e \<Rightarrow> Inl e
                     | Inr album \<Rightarrow>
                         (case subscript album ''name'' of
                            Inl e \<Rightarrow> Inl e
                          | Inr album_name \<Rightarrow> Inr (parts @ [''Album : '' @ str album_name])))
               else Inr parts) of
           Inl e \<Rightarrow> Inl e
         | Inr parts \<Rightarrow>
     (let parts = (if truthy (dict_get song ''release_date'' JNull)
                   then parts @ [''Date  : '' @ str (dict_get song ''release_date'' JNull)]
                   else parts);
          parts = parts @ [''URL   : '' @ str (dict_get song ''url'' JNull)]
      in Inr (join nl parts)))))"

definition sanitize_filename :: "string \<Rightarrow> string" where
  \<comment> \<open>the characters outside \<open>[\w\s\-_().]\<close> are deleted, the result is stripped, every
      space becomes an underscore\<close>
  "sanitize_filename name =
     map (\<lambda>c. if c = CHR '' '' then CHR ''_'' else c)
       (strip (filter (\<lambda>c. isword c \<or> isspace c \<or> c \<in> set ''-_().'') name))"

definition path_join :: "string \<Rightarrow> string \<Rightarrow> string" where
  \<comment> \<open>\<open>os.path.join(a, b)\<close> on POSIX\<close>
  "path_join a b =
     (if b \<noteq> [] \<and> hd b = CHR ''/'' then b
      else if a = [] \<or> last a = CHR ''/'' then a @ b
      else a @ ''/'' @ b)"

text \<open>
  The file system answers an operation with \<open>None\<close> when it succeeds, and with the class
  name and the message of the \<open>OSError\<close> it raises otherwise.
\<close>

type_synonym file_system = "fs_op \<Rightarrow> (string \<times> string) option"

definition write_to_file ::
  "file_system \<Rightarrow> string \<Rightarrow> json \<Rightarrow> string \<Rightarrow> string \<Rightarrow> io \<Rightarrow> (exn + unit) \<times> io" where
  \<comment> \<open>\<open>os.makedirs\<close> raises \<open>FileNotFoundError\<close> on the empty path, whatever the file system
      holds. The title is what \<open>song.get\<close> gave; \<open>re.sub\<close> raises \<open>TypeError\<close> on anything
      but a string. \<open>open\<close> and \<open>write\<close> are one operation\<close>
  "write_to_file fsys content title folder_path extension s =
     (if folder_path = [] then
        (Inl (OSError ''FileNotFoundError''
                (''[Errno 2] No such file or directory: '' @ [CHR 0x27, CHR 0x27])), s)
      else
     (case fsys (MakeDirs folder_path) of
        Some (c, m) \<Rightarrow> (Inl (OSError c m), s)
      | None \<Rightarrow>
     (let s1 = s\<lparr>fs := fs s @ [MakeDirs folder_path]\<rparr>
      in case title of
           JStr t \<Rightarrow>
             (let filename = sanitize_filename t;
                  filepath = path_join folder_path (filename @ ''.'' @ extension)
              in case fsys (WriteFile filepath content) of
                   Some (c, m) \<Rightarrow> (Inl (OSError c m), s1)
                 | None \<Rightarrow>
                     (let s2 = s1\<lparr>fs := fs s1 @ [WriteFile filepath content]\<rparr>
                      in (Inr (),
                          write_stdout
                            (nl @ ''[FICHIER SAUV'' @ [CHR 0xC9] @ ''] '' @ filepath @ nl) s2)))
         | _ \<Rightarrow> (Inl (TypeError ''expected string or bytes-like object''), s1))))"

section \<open>Orchestrator\<close>

datatype output_format = OutText | OutJson

text \<open>
  The parsed command line. \<open>argparse\<close> gives exactly one of the two links, never both
  view flags, and one of the two output choices.
\<close>

record args =
  spotify :: "string option"
  soundcloud :: "string option"
  lyrics :: bool
  data :: bool
  output_fmt :: output_format
  file_folder :: "string option"

text \<open>
  What a run meets outside the program: the credential, the four services and the file
  system.
\<close>

record world =
  GENIUS_ACCESS_TOKEN :: string
  oembed :: "string \<Rightarrow> oembed_response"
  search_api :: "string \<Rightarrow> string \<Rightarrow> hit list api_response"
  song_api :: "string \<Rightarrow> int \<Rightarrow> song api_response"
  song_page :: "json \<Rightarrow> page_response"
  files :: file_system

definition token_placeholder :: string where
  "token_placeholder =
     ''[/!'' @ [CHR 0x5C] @ '' YOUR GENIUS ACCESS TOKEN HERE /!'' @ [CHR 0x5C] @ '']''"

definition opt_truthy :: "string option \<Rightarrow> bool" where
  \<comment> \<open>\<open>if args.spotify\<close>: given and not empty\<close>
  "opt_truthy x = (case x of None \<Rightarrow> False | Some u \<Rightarrow> u \<noteq> [])"

definition id_truthy :: "int option \<Rightarrow> bool" where
  \<comment> \<open>the truth value of \<open>song_id\<close>: neither \<open>None\<close> nor zero\<close>
  "id_truthy x = (case x of None \<Rightarrow> False | Some i \<Rightarrow> i \<noteq> 0)"

definition link_metadata :: "world \<Rightarrow> args \<Rightarrow> io \<Rightarrow> (exn + string \<times> string) \<times> io" where
  \<comment> \<open>the body of the first \<open>try\<close> of \<open>main\<close>\<close>
  "link_metadata w a s =
     (if opt_truthy (spotify a) then
        get_spotify_metadata (oembed w) (case spotify a of Some u \<Rightarrow> u | None \<Rightarrow> []) s
      else if opt_truthy (soundcloud a) then
        get_soundcloud_metadata (oembed w) (case soundcloud a of Some u \<Rightarrow> u | None \<Rightarrow> []) s
      else
        (Inl (ValueError (''Aucune source musicale valide n'' @ [CHR 0x27] @ ''a ''
                @ [CHR 0xE9] @ ''t'' @ [CHR 0xE9] @ '' fournie.'')), s))"

definition scrape_song_url :: "world \<Rightarrow> song \<Rightarrow> io \<Rightarrow> (exn + string) \<times> io" where
  \<comment> \<open>\<open>_scrape_genius_lyrics(song["url"])\<close>\<close>
  "scrape_song_url w song s =
     (case subscript (JObj song) ''url'' of
        Inl e \<Rightarrow> (Inl e, s)
      | Inr url \<Rightarrow> scrape_genius_lyrics (song_page w) url s)"

definition scrape_or_warn :: "world \<Rightarrow> song \<Rightarrow> io \<Rightarrow> (exn + string) \<times> io" where
  \<comment> \<open>the \<open>try\<close> around the lyrics: \<open>except Exception\<close> takes every exception but
      \<open>SystemExit\<close>, and \<open>lyrics\<close> keeps its initial value, the empty string\<close>
  "scrape_or_warn w song s =
     (case scrape_song_url w song s of
        (Inr text, s') \<Rightarrow> (Inr text, s')
      | (Inl (SystemExit n), s') \<Rightarrow> (Inl (SystemExit n), s')
      | (Inl e, s') \<Rightarrow>
          (Inr [], write_stderr (''[WARNING] Lyrics scraping failed: '' @ exn_str e @ nl) s'))"

definition compose_output :: "args \<Rightarrow> song \<Rightarrow> string \<Rightarrow> exn + string" where
  \<comment> \<open>the value of \<open>output\<close>\<close>
  "compose_output a song lyrics_text =
     (if output_fmt a = OutJson then
        (if lyrics a then Inr (dumps (JObj [(''lyrics'', JStr lyrics_text)]))
         else if data a then Inr (dumps (JObj song))
         else Inr (dumps (JObj (dict_set ''lyrics'' (JStr lyrics_text) song))))
      else
        (if lyrics a then Inr lyrics_text
         else if data a then print_metadata song
         else (case print_metadata song of
                 Inl e \<Rightarrow> Inl e
               | Inr metadata \<Rightarrow> Inr (metadata @ nl @ nl @ lyrics_text))))"

definition emit ::
  "file_system \<Rightarrow> args \<Rightarrow> string \<Rightarrow> json \<Rightarrow> io \<Rightarrow> (exn + unit) \<times> io" where
  \<comment> \<open>the end of \<open>main\<close>: to a file or to the standard output\<close>
  "emit fsys a out title s =
     (case file_folder a of
        Some folder_path \<Rightarrow>
          write_to_file fsys out title folder_path
            (if output_fmt a = OutJson then ''json'' else ''txt'') s
      | None \<Rightarrow> (Inr (), write_stdout (out @ nl) s))"

definition main :: "world \<Rightarrow> args \<Rightarrow> io \<Rightarrow> (exn + unit) \<times> io" where
  "main w a s0 =
     (let token = GENIUS_ACCESS_TOKEN w
      in if token = [] \<or> token = token_placeholder then
           (Inl (SystemExit 1),
            write_stderr
              (''[ERROR] Please set GENIUS_ACCESS_TOKEN in the script (line 32).'' @ nl) s0)
         else
     (case link_metadata w a s0 of
        (Inl (ValueError e), s1) \<Rightarrow>
          (Inl (SystemExit 1), write_stderr (''[ERROR] '' @ e @ nl) s1)
      | (Inl e, s1) \<Rightarrow> (Inl e, s1)
      | (Inr (track, artist), s1) \<Rightarrow>
     if track = [] then
       (Inl (SystemExit 1),
        write_stderr (''[ERROR] Could not parse metadata from provided link.'' @ nl) s1)
     else
     (case search_genius (search_api w) track artist token s1 of
        (Inl e, s2) \<Rightarrow> (Inl e, s2)
      | (Inr song_id, s2) \<Rightarrow>
     if \<not> id_truthy song_id then
       (Inl (SystemExit 1),
        write_stderr (''[ERROR] No matching song found on Genius.'' @ nl) s2)
     else
     (case get_genius_song (song_api w) (case song_id of Some i \<Rightarrow> i | None \<Rightarrow> 0) token s2 of
        (Inl e, s3) \<Rightarrow> (Inl e, s3)
      | (Inr song, s3) \<Rightarrow>
     (let title = dict_get song ''title'' (JStr ''unknown_title'');
          need_lyrics = (lyrics a \<or> \<not> data a)
      in case (if need_lyrics then scrape_or_warn w song s3 else (Inr [], s3)) of
           (Inl e, s4) \<Rightarrow> (Inl e, s4)
         | (Inr lyrics_text, s4) \<Rightarrow>
     (case compose_output a song lyrics_text of
        Inl e \<Rightarrow> (Inl e, s4)
      | Inr out \<Rightarrow> emit (files w) a out title s4))))))"

text \<open>
  The process around \<open>main\<close>: it ends with status 0 when \<open>main\<close> returns and with the
  status of \<open>sys.exit\<close> when that was called; on any other exception the interpreter
  writes the traceback to the error stream (its stack lines are left out here) and ends
  with status 1.
\<close>

fun exn_name :: "exn \<Rightarrow> string" where
  "exn_name (ValueError m) = ''ValueError''"
| "exn_name (HTTPError m) = ''requests.exceptions.HTTPError''"
| "exn_name (RequestException m) = ''requests.exceptions.RequestException''"
| "exn_name (KeyError k) = ''KeyError''"
| "exn_name (TypeError m) = ''TypeError''"
| "exn_name (AttributeError m) = ''AttributeError''"
| "exn_name (OSError c m) = c"
| "exn_name (SystemExit n) = ''SystemExit''"

definition traceback :: "exn \<Rightarrow> string" where
  "traceback e =
     ''Traceback (most recent call last):'' @ nl @ exn_name e @ '': '' @ exn_str e @ nl"

definition run :: "world \<Rightarrow> args \<Rightarrow> nat \<times> io" where
  "run w a =
     (case main w a io0 of
        (Inr u, s) \<Rightarrow> (0, s)
      | (Inl (SystemExit n), s) \<Rightarrow> (n, s)
      | (Inl e, s) \<Rightarrow> (1, write_stderr (traceback e) s))"

definition error_labelled :: "io \<Rightarrow> bool" where
  \<comment> \<open>a message with the \<open>[ERROR]\<close> label was written to the error stream\<close>
  "error_labelled s = list_ex (prefix ''[ERROR]'') (stderr s)"


section \<open>Lyrics extractor: the text of a page, container by container\<close>

text \<open>
  The extractor as its description has it, on the page as it was parsed and without any
  change to it: every lyric container in document order, each without the elements below
  it that carry the exclusion marker, its text joined with line breaks and trimmed, the
  empty texts dropped, the others joined with one line break.
\<close>

fun prune :: "node \<Rightarrow> node" where
  \<comment> \<open>the node without any element below it that carries the exclusion marker\<close>
  "prune (Element i tag attrs cs) =
     Element i tag attrs (map prune (filter (\<lambda>c. \<not> is_excluded c) cs))"
| "prune n = n"

definition container_text :: "node \<Rightarrow> string" where
  "container_text c = strip (get_text nl (prune c))"

definition lyrics_by_container :: "node \<Rightarrow> string" where
  "lyrics_by_container soup =
     join nl (filter (\<lambda>text. text \<noteq> [])
                (map container_text (filter is_lyrics_container (descendants soup))))"

text \<open>
  The identities of the elements of a list of trees, in document order. Elements are
  distinct objects: no identity occurs twice in a parsed page.
\<close>

fun ids_of :: "node list \<Rightarrow> nat list" where
  "ids_of [] = []"
| "ids_of (Text t # ns) = ids_of ns"
| "ids_of (Comment t # ns) = ids_of ns"
| "ids_of (Element i tag attrs cs # ns) = i # ids_of cs @ ids_of ns"

definition all_nodes :: "node list \<Rightarrow> node list" where
  \<comment> \<open>the trees and everything below them, in document order\<close>
  "all_nodes roots = concat (map (\<lambda>r. r # descendants r) roots)"

definition rem :: "nat \<Rightarrow> node list \<Rightarrow> node list" where
  \<comment> \<open>the trees without the element \<open>e\<close>, wherever it is\<close>
  "rem e ns = map (remove_id e) (filter (\<lambda>c. node_id c \<noteq> Some e) ns)"

fun remove_ids :: "nat set \<Rightarrow> node \<Rightarrow> node" where
  \<comment> \<open>the node without the elements of \<open>S\<close> below it\<close>
  "remove_ids S (Element i tag attrs cs) =
     Element i tag attrs (map (remove_ids S) (filter (\<lambda>c. node_id c \<notin> Some ` S) cs))"
| "remove_ids S n = n"

section \<open>Structured values: parsing\<close>

text \<open>
  \<open>json.loads\<close>, as the decoder of the standard library reads a document: a value is a
  string, an object, an array, one of the three literals or a number, whitespace may stand
  between the tokens, an object becomes a dictionary built pair by pair. The decoder calls
  itself for nested values; the model counts these calls down from a number that grows with
  the document. Documents with a float, with \<open>NaN\<close> or \<open>Infinity\<close>, or with a \<open>\u\<close>
  escape beyond U+00FF have no value in the model.
\<close>

definition is_ws :: "char \<Rightarrow> bool" where
  "is_ws c = (c \<in> set [CHR '' '', CHR 0x09, CHR 0x0A, CHR 0x0D])"

definition skip_ws :: "string \<Rightarrow> string" where
  "skip_ws s = dropWhile is_ws s"

definition isdigit :: "char \<Rightarrow> bool" where
  "isdigit c = in_range 0x30 0x39 c"

definition digit_val :: "char \<Rightarrow> nat" where
  "digit_val c = of_char c - 48"

definition nat_of_digits :: "string \<Rightarrow> nat" where
  "nat_of_digits ds = foldl (\<lambda>acc c. 10 * acc + digit_val c) 0 ds"

definition hex_val :: "char \<Rightarrow> nat option" where
  "hex_val c =
     (if in_range 0x30 0x39 c then Some (of_char c - 48)
      else if in_range 0x61 0x66 c then Some (of_char c - 87)
      else if in_range 0x41 0x46 c then Some (of_char c - 55)
      else None)"

definition unescape :: "char \<Rightarrow> char option" where
  \<comment> \<open>the character after a backslash, \<open>u\<close> apart\<close>
  "unescape e =
     (if e = CHR 0x22 then Some (CHR 0x22)
      else if e = CHR 0x5C then Some (CHR 0x5C)
      else if e = CHR ''/'' then Some (CHR ''/'')
      else if e = CHR ''b'' then Some (CHR 0x08)
      else if e = CHR ''f'' then Some (CHR 0x0C)
      else if e = CHR ''n'' then Some (CHR 0x0A)
      else if e = CHR ''r'' then Some (CHR 0x0D)
      else if e = CHR ''t'' then Some (CHR 0x09)
      else None)"

definition hex4 :: "string \<Rightarrow> nat option" where
  "hex4 ds =
     (case map hex_val ds of
        [Some a, Some b, Some c, Some d] \<Rightarrow> Some (((a * 16 + b) * 16 + c) * 16 + d)
      | _ \<Rightarrow> None)"

fun scanstring :: "nat \<Rightarrow> string \<Rightarrow> (string \<times> string) option" where
  \<comment> \<open>from behind the opening quote: the string's value and what follows its closing
      quote; the number is the count of characters it may read\<close>
  "scanstring 0 s = None"
| "scanstring (Suc n) [] = None"
| "scanstring (Suc n) (c # cs) =
     (if c = CHR 0x22 then Some ([], cs)
      else if c = CHR 0x5C then
        (case cs of
           [] \<Rightarrow> None
         | e # cs' \<Rightarrow>
             if e = CHR ''u'' then
               (case hex4 (take 4 cs') of
                  None \<Rightarrow> None
                | Some x \<Rightarrow>
                    if x < 256 then
                      (case scanstring n (drop 4 cs') of
                         None \<Rightarrow> None
                       | Some (text, rest) \<Rightarrow> Some (char_of x # text, rest))
                    else None)
             else
               (case unescape e of
                  None \<Rightarrow> None
                | Some x \<Rightarrow>
                    (case scanstring n cs' of
                       None \<Rightarrow> None
                     | Some (text, rest) \<Rightarrow> Some (x # text, rest))))
      else if in_range 0 0x1F c then None
      else (case scanstring n cs of
              None \<Rightarrow> None
            | Some (text, rest) \<Rightarrow> Some (c # text, rest)))"

definition parse_number :: "string \<Rightarrow> (json \<times> string) option" where
  \<comment> \<open>an optional minus, then \<open>0\<close> or a digit from 1 to 9 and more digits; a fraction or an
      exponent behind them makes a float\<close>
  "parse_number s =
     (let negative = (s \<noteq> [] \<and> hd s = CHR ''-'');
          s1 = (if negative then tl s else s);
          ds = (if s1 \<noteq> [] \<and> hd s1 = CHR ''0'' then ''0'' else takeWhile isdigit s1);
          rest = drop (length ds) s1
      in if ds = [] then None
         else if rest \<noteq> [] \<and> hd rest \<in> set ''.eE'' then None
         else Some (JInt (if negative then - int (nat_of_digits ds) else int (nat_of_digits ds)),
                    rest))"

fun parse_value :: "nat \<Rightarrow> string \<Rightarrow> (json \<times> string) option"
  and parse_array :: "nat \<Rightarrow> string \<Rightarrow> json list \<Rightarrow> (json \<times> string) option"
  and parse_object :: "nat \<Rightarrow> string \<Rightarrow> (string \<times> json) list \<Rightarrow> (json \<times> string) option"
where
  "parse_value 0 s = None"
| "parse_value (Suc n) s =
     (if s = [] then None
      else if hd s = CHR 0x22 then
        (case scanstring (length s) (tl s) of
           None \<Rightarrow> None
         | Some (text, rest) \<Rightarrow> Some (JStr text, rest))
      else if hd s = CHR ''{'' then
        (let s1 = skip_ws (tl s)
         in if s1 \<noteq> [] \<and> hd s1 = CHR ''}'' then Some (JObj [], tl s1)
            else parse_object n s1 [])
      else if hd s = CHR ''['' then
        (let s1 = skip_ws (tl s)
         in if s1 \<noteq> [] \<and> hd s1 = CHR '']'' then Some (JArr [], tl s1)
            else parse_array n s1 [])
      else if take 4 s = ''null'' then Some (JNull, drop 4 s)
      else if take 4 s = ''true'' then Some (JBool True, drop 4 s)
      else if take 5 s = ''false'' then Some (JBool False, drop 5 s)
      else parse_number s)"
| "parse_array 0 s values = None"
| "parse_array (Suc n) s values =
     (case parse_value n s of
        None \<Rightarrow> None
      | Some (v, rest) \<Rightarrow>
          (let s1 = skip_ws rest
           in if s1 = [] then None
              else if hd s1 = CHR '']'' then Some (JArr (values @ [v]), tl s1)
              else if hd s1 = CHR '','' then parse_array n (skip_ws (tl s1)) (values @ [v])
              else None))"
| "parse_object 0 s pairs = None"
| "parse_object (Suc n) s pairs =
     (if s = [] \<or> hd s \<noteq> CHR 0x22 then None
      else
        (case scanstring (length s) (tl s) of
           None \<Rightarrow> None
         | Some (key, rest) \<Rightarrow>
             (let s1 = skip_ws rest
              in if s1 = [] \<or> hd s1 \<noteq> CHR '':'' then None
                 else
                   (case parse_value n (skip_ws (tl s1)) of
                      None \<Rightarrow> None
                    | Some (v, rest2) \<Rightarrow>
                        (let s2 = skip_ws rest2
                         in if s2 = [] then None
                            else if hd s2 = CHR ''}'' then
                              Some (JObj (dict_set key v pairs), tl s2)
                            else if hd s2 = CHR '','' then
                              parse_object n (skip_ws (tl s2)) (dict_set key v pairs)
                            else None)))))"

definition loads :: "string \<Rightarrow> json option" where
  \<comment> \<open>\<open>json.loads(s)\<close>: one value, with nothing but whitespace before and behind it\<close>
  "loads s =
     (case parse_value (Suc (length s)) (skip_ws s) of
        None \<Rightarrow> None
      | Some (v, rest) \<Rightarrow> if skip_ws rest = [] then Some v else None)"

fun distinct_keys :: "json \<Rightarrow> bool" where
  \<comment> \<open>a dictionary holds every key once, at every depth\<close>
  "distinct_keys (JArr xs) = list_all distinct_keys xs"
| "distinct_keys (JObj kvs) = (distinct (map fst kvs) \<and> list_all (\<lambda>kv. distinct_keys (snd kv)) kvs)"
| "distinct_keys x = True"

section \<open>Auxiliary notions\<close>

text \<open>Notions the statements and proofs below use.\<close>

definition trimmed :: "string \<Rightarrow> bool" where
  \<comment> \<open>no whitespace at either end\<close>
  "trimmed s = (s = [] \<or> (\<not> isspace (hd s) \<and> \<not> isspace (last s)))"

definition reported_failure :: "oembed_response \<Rightarrow> bool" where
  \<comment> \<open>the answers of an embed endpoint with which the extractors raise \<open>ValueError\<close>: the
      request fails, the body is no JSON text, or it is an object without a title or with
      a falsy one\<close>
  "reported_failure r =
     (case r of
        OembedRequestException e \<Rightarrow> True
      | OembedJSONDecodeError e \<Rightarrow> True
      | OembedData (JObj d) \<Rightarrow> \<not> truthy (dict_get d ''title'' JNull)
      | OembedData x \<Rightarrow> False)"


definition value_end :: "string \<Rightarrow> bool" where
  \<comment> \<open>what follows a value in a serialised document: nothing, a comma or a line break\<close>
  "value_end rest = (rest = [] \<or> hd rest = CHR '','' \<or> hd rest = CHR 0x0A)"

fun need :: "json \<Rightarrow> nat" where
  \<comment> \<open>a count of nested calls that suffices to parse the serialised value\<close>
  "need (JArr xs) = Suc (sum_list (map (\<lambda>x. Suc (need x)) xs))"
| "need (JObj kvs) = Suc (sum_list (map (\<lambda>kv. Suc (need (snd kv))) kvs))"
| "need x = 1"

definition value_start :: "char \<Rightarrow> bool" where
  \<comment> \<open>the characters a serialised value begins with\<close>
  "value_start c = (c = CHR 0x22 \<or> c = CHR ''{'' \<or> c = CHR ''['' \<or> c = CHR ''n''
                    \<or> c = CHR ''t'' \<or> c = CHR ''f'' \<or> c = CHR ''-'' \<or> isdigit c)"

section \<open>Concrete inputs\<close>

text \<open>The inputs at which the theorems below are instantiated.\<close>

definition oembed_const :: "oembed_response \<Rightarrow> string \<Rightarrow> oembed_response" where
  \<comment> \<open>an embed endpoint that answers every request alike\<close>
  "oembed_const r target = r"

definition hits_weeknd_drake :: "hit list" where
  "hits_weeknd_drake =
     [\<lparr>primary_artist_name = ''The Weeknd'', result_id = 11\<rparr>,
      \<lparr>primary_artist_name = ''Drake'', result_id = 22\<rparr>]"

definition hits_x_y :: "hit list" where
  "hits_x_y =
     [\<lparr>primary_artist_name = ''X'', result_id = 7\<rparr>,
      \<lparr>primary_artist_name = ''Y'', result_id = 8\<rparr>]"

definition world_of ::
  "oembed_response \<Rightarrow> hit list api_response \<Rightarrow> song api_response \<Rightarrow> page_response \<Rightarrow> world" where
  \<comment> \<open>a world with a credential, in which each service answers every request alike and
      every operation on files succeeds\<close>
  "world_of title found fetched page =
     \<lparr>GENIUS_ACCESS_TOKEN = ''token'',
      oembed = (\<lambda>target. title),
      search_api = (\<lambda>token query. found),
      song_api = (\<lambda>token song_id. fetched),
      song_page = (\<lambda>url. page),
      files = (\<lambda>operation. None)\<rparr>"

definition args_spotify :: args where
  \<comment> \<open>\<open>-sp u\<close>: the combined view as text on the standard output\<close>
  "args_spotify =
     \<lparr>spotify = Some ''u'', soundcloud = None, lyrics = False, data = False,
      output_fmt = OutText, file_folder = None\<rparr>"

definition args_soundcloud :: args where
  \<comment> \<open>\<open>-sc u\<close>\<close>
  "args_soundcloud =
     \<lparr>spotify = None, soundcloud = Some ''u'', lyrics = False, data = False,
      output_fmt = OutText, file_folder = None\<rparr>"

definition args_empty_link :: args where
  \<comment> \<open>\<open>-sp ""\<close>: a link is given and it is empty\<close>
  "args_empty_link =
     \<lparr>spotify = Some [], soundcloud = None, lyrics = False, data = False,
      output_fmt = OutText, file_folder = None\<rparr>"

definition titled :: "string \<Rightarrow> oembed_response" where
  \<comment> \<open>a decoded body with a title and nothing else\<close>
  "titled t = OembedData (JObj [(''title'', JStr t)])"

definition title_song_artist :: oembed_response where
  "title_song_artist = titled ''Song - Artist''"

definition song_example :: song where
  "song_example =
     [(''title'', JStr ''Song''),
      (''primary_artist'', JObj [(''name'', JStr ''Artist'')]),
      (''url'', JStr ''https://genius.com/song'')]"




definition hits_zero :: "hit list" where
  \<comment> \<open>one hit, whose identifier is 0\<close>
  "hits_zero = [\<lparr>primary_artist_name = ''Artist'', result_id = 0\<rparr>]"

definition hits_one :: "hit list" where
  "hits_one = [\<lparr>primary_artist_name = ''Artist'', result_id = 5\<rparr>]"

definition page_const :: "page_response \<Rightarrow> json \<Rightarrow> page_response" where
  \<comment> \<open>a site that answers every page request alike\<close>
  "page_const r url = r"

definition page_example :: node where
  \<comment> \<open>a page with four lyric containers: one with an excluded insertion that itself holds a
      container, which holds an excluded element; one with nothing but whitespace left\<close>
  "page_example =
     Element 0 ''[document]'' []
       [Element 1 ''div'' [(''data-lyrics-container'', ''true'')]
          [Text ''Verse'',
           Element 2 ''br'' [] [],
           Element 3 ''span'' [(''data-exclude-from-selection'', ''true'')]
             [Text ''[ad]'',
              Element 4 ''div'' [(''data-lyrics-container'', ''true'')]
                [Text ''inner'',
                 Element 5 ''i'' [(''data-exclude-from-selection'', [])] [Text ''x'']]],
           Text ''line2''],
        Comment ''between'',
        Element 6 ''div'' [(''data-lyrics-container'', ''true'')]
          [Text ''  '', Element 7 ''i'' [(''data-exclude-from-selection'', [])] [Text ''x'']],
        Element 8 ''div'' [(''data-lyrics-container'', ''true'')] [Text ''Chorus '']]"

definition args_data_json :: args where
  \<comment> \<open>\<open>-sp u -d -o json\<close>: the metadata alone, structured, on the standard output\<close>
  "args_data_json =
     \<lparr>spotify = Some ''u'', soundcloud = None, lyrics = False, data = True,
      output_fmt = OutJson, file_folder = None\<rparr>"

section \<open>Facts about the string operations\<close>

lemma lower_eq_Nil [simp]: "lower s = [] \<longleftrightarrow> s = []"
  by (simp add: lower_def)

text \<open>\<^const>\<open>contains\<close> is the substring relation.\<close>

lemma contains_iff_sublist: "contains xs ys \<longleftrightarrow> (\<exists>ps ss. ys = ps @ xs @ ss)"
proof (induction ys)
  case Nil
  then show ?case by auto
next
  case (Cons y ys)
  show ?case
  proof
    assume "contains xs (y # ys)"
    then consider "prefix xs (y # ys)" | "contains xs ys" by auto
    then show "\<exists>ps ss. y # ys = ps @ xs @ ss"
    proof cases
      case 1
      then obtain ss where "y # ys = xs @ ss" by (auto simp: prefix_def)
      then have "y # ys = [] @ xs @ ss" by simp
      then show ?thesis by blast
    next
      case 2
      with Cons.IH obtain ps ss where "ys = ps @ xs @ ss" by blast
      then have "y # ys = (y # ps) @ xs @ ss" by simp
      then show ?thesis by blast
    qed
  next
    assume "\<exists>ps ss. y # ys = ps @ xs @ ss"
    then obtain ps ss where eq: "y # ys = ps @ xs @ ss" by blast
    show "contains xs (y # ys)"
    proof (cases ps)
      case Nil
      with eq have "prefix xs (y # ys)" by (simp add: prefix_def)
      then show ?thesis by simp
    next
      case (Cons p ps')
      with eq have "ys = ps' @ xs @ ss" by simp
      with Cons.IH have "contains xs ys" by blast
      then show ?thesis by simp
    qed
  qed
qed

lemma split_not_Nil [simp]: "split sep s \<noteq> []"
  by (induction sep s rule: split.induct) (subst split.simps, auto split: list.splits)

lemma length_split_cases: "2 \<le> length (split sep s) \<or> length (split sep s) = 1"
  using split_not_Nil [of sep s]
  by (cases "split sep s") (auto simp: Suc_le_eq)

lemma join_Cons_Nil: "ps \<noteq> [] \<Longrightarrow> join sep ([] # ps) = sep @ join sep ps"
  by (cases ps) auto

lemma join_Cons_push: "join sep ((c # p) # ps) = c # join sep (p # ps)"
  by (cases ps) auto

text \<open>Joining the parts of a split with the separator gives the string back.\<close>

lemma join_split: "sep \<noteq> [] \<Longrightarrow> join sep (split sep s) = s"
proof (induction sep s rule: split.induct)
  case (1 sep s)
  show ?case
  proof (cases "s = []")
    case True
    with "1.prems" show ?thesis by (subst split.simps) simp
  next
    case ne: False
    show ?thesis
    proof (cases "prefix sep s")
      case True
      then have s: "s = sep @ drop (length sep) s"
        by (metis append_eq_conv_conj prefix_def)
      from True ne "1.prems" "1.IH"(1)
      have "join sep (split sep (drop (length sep) s)) = drop (length sep) s"
        by simp
      with True ne "1.prems" s show ?thesis
        by (subst split.simps) (simp add: join_Cons_Nil)
    next
      case False
      with ne "1.prems" "1.IH"(2) have ih: "join sep (split sep (tl s)) = tl s" by simp
      obtain p ps where sp: "split sep (tl s) = p # ps"
        by (cases "split sep (tl s)") auto
      from ne have "s = hd s # tl s" by simp
      with False ne "1.prems" ih sp show ?thesis
        by (subst split.simps) (simp add: join_Cons_push)
    qed
  qed
qed

text \<open>A split has one part exactly when the separator does not occur.\<close>

lemma split_single_iff:
  "sep \<noteq> [] \<Longrightarrow> length (split sep s) = 1 \<longleftrightarrow> \<not> contains sep s"
proof (induction sep s rule: split.induct)
  case (1 sep s)
  show ?case
  proof (cases "s = []")
    case True
    with "1.prems" show ?thesis by (subst split.simps) simp
  next
    case ne: False
    then obtain c cs where s: "s = c # cs" by (cases s) auto
    show ?thesis
    proof (cases "prefix sep s")
      case True
      with ne "1.prems" s show ?thesis
        by (subst split.simps) auto
    next
      case False
      with ne "1.prems" "1.IH"(2)
      have ih: "length (split sep (tl s)) = 1 \<longleftrightarrow> \<not> contains sep (tl s)"
        by simp
      obtain p ps where sp: "split sep (tl s) = p # ps"
        by (cases "split sep (tl s)") auto
      from False ne "1.prems" ih sp s show ?thesis
        by (subst split.simps) auto
    qed
  qed
qed

lemma dropWhile_id: "xs = [] \<or> \<not> P (hd xs) \<Longrightarrow> dropWhile P xs = xs"
  by (cases xs) auto

lemma dropWhile_hd: "dropWhile P xs = [] \<or> \<not> P (hd (dropWhile P xs))"
  by (induction xs) auto

lemma strip_trimmed_id: "trimmed s \<Longrightarrow> strip s = s"
  unfolding trimmed_def strip_def
  by (cases "s = []") (simp_all add: dropWhile_id hd_rev)

lemma trimmed_strip: "trimmed (strip s)"
proof -
  define a where "a = dropWhile isspace s"
  define b where "b = dropWhile isspace (rev a)"
  have b: "b = [] \<or> \<not> isspace (hd b)" unfolding b_def by (rule dropWhile_hd)
  have a: "a = [] \<or> \<not> isspace (hd a)" unfolding a_def by (rule dropWhile_hd)
  have st: "strip s = rev b" by (simp add: strip_def a_def b_def)
  show ?thesis
  proof (cases "b = []")
    case True
    then show ?thesis by (simp add: trimmed_def st)
  next
    case False
    with b have l: "\<not> isspace (last (rev b))" by (simp add: last_rev)
    have "rev a = takeWhile isspace (rev a) @ b"
      unfolding b_def by simp
    then have "rev (rev a) = rev (takeWhile isspace (rev a) @ b)" by simp
    then have eq: "a = rev b @ rev (takeWhile isspace (rev a))" by simp
    from False have "rev b \<noteq> []" by simp
    with eq have ane: "a \<noteq> []" by (metis append_is_Nil_conv)
    from eq \<open>rev b \<noteq> []\<close> have "hd a = hd (rev b)" by (metis hd_append2)
    with a ane have "\<not> isspace (hd (rev b))" by simp
    with l False show ?thesis by (simp add: trimmed_def st)
  qed
qed

lemma set_strip: "set (strip s) \<subseteq> set s"
  unfolding strip_def by (metis set_rev set_dropWhileD subsetI)

lemma hd_join: "xs \<noteq> [] \<Longrightarrow> hd xs \<noteq> [] \<Longrightarrow> hd (join sep xs) = hd (hd xs)"
  by (induction sep xs rule: join.induct) auto

lemma join_last_not_Nil: "xs \<noteq> [] \<Longrightarrow> last xs \<noteq> [] \<Longrightarrow> join sep xs \<noteq> []"
  by (induction sep xs rule: join.induct) auto

lemma last_join: "xs \<noteq> [] \<Longrightarrow> last xs \<noteq> [] \<Longrightarrow> last (join sep xs) = last (last xs)"
proof (induction sep xs rule: join.induct)
  case (3 sep p q ps)
  from 3(3) have l: "last (q # ps) \<noteq> []" by simp
  then have "join sep (q # ps) \<noteq> []" by (intro join_last_not_Nil) simp_all
  then have "last (join sep (p # q # ps)) = last (join sep (q # ps))" by simp
  also have "\<dots> = last (last (q # ps))" using l by (intro 3(1)) simp_all
  finally show ?case by simp
qed simp_all

lemma trimmed_join_strip:
  assumes "ps \<noteq> []" "strip (hd ps) \<noteq> []" "strip (last ps) \<noteq> []"
  shows "trimmed (join sep (map strip ps))"
proof -
  let ?xs = "map strip ps"
  from assms have h: "hd ?xs \<noteq> []" and l: "last ?xs \<noteq> []" and ne: "?xs \<noteq> []"
    by (simp_all add: hd_map last_map)
  have "trimmed (hd ?xs)" "trimmed (last ?xs)"
    using assms(1) by (simp_all add: hd_map last_map trimmed_strip)
  with h l have "\<not> isspace (hd (hd ?xs))" "\<not> isspace (last (last ?xs))"
    by (simp_all add: trimmed_def)
  moreover have "hd (join sep ?xs) = hd (hd ?xs)" using ne h by (rule hd_join)
  moreover have "last (join sep ?xs) = last (last ?xs)" using ne l by (rule last_join)
  ultimately have "\<not> isspace (hd (join sep ?xs))" "\<not> isspace (last (join sep ?xs))"
    by simp_all
  then show ?thesis by (simp add: trimmed_def)
qed

section \<open>Catalog matcher: properties\<close>

lemma first_match_None_iff:
  "first_match al hs = None \<longleftrightarrow>
     (\<forall>h \<in> set hs. \<not> (al \<noteq> [] \<and> contains al (lower (primary_artist_name h))))"
  by (induction hs) (auto simp: Let_def)

lemma first_match_at:
  "i < length hs \<Longrightarrow> al \<noteq> [] \<Longrightarrow> contains al (lower (primary_artist_name (hs ! i))) \<Longrightarrow>
   (\<forall>j<i. \<not> contains al (lower (primary_artist_name (hs ! j)))) \<Longrightarrow>
   first_match al hs = Some (result_id (hs ! i))"
proof (induction hs arbitrary: i)
  case Nil
  then show ?case by simp
next
  case (Cons h hs)
  show ?case
  proof (cases i)
    case 0
    with Cons.prems show ?thesis by (simp add: Let_def)
  next
    case (Suc k)
    with Cons.prems have nomatch: "\<not> contains al (lower (primary_artist_name h))"
      by (metis nth_Cons_0 zero_less_Suc)
    from Suc Cons.prems have "\<forall>j<k. \<not> contains al (lower (primary_artist_name (hs ! j)))"
      by (metis Suc_less_eq nth_Cons_Suc)
    with Suc Cons.prems Cons.IH [of k] have "first_match al hs = Some (result_id (hs ! k))"
      by simp
    with nomatch Suc show ?thesis by (simp add: Let_def)
  qed
qed

text \<open>
  Claim C1. Let the hit list and the query artist be non-empty. If hit \<open>i\<close> is the first
  hit, in the order of the list, whose primary-artist name in lower case contains the query
  artist in lower case as a substring, the matcher returns the identifier of hit \<open>i\<close>.
  With the empty string as query artist the loop over the hits matches no hit, whatever
  the hits are.
\<close>

theorem matcher_first_substring_match:
  "(artist \<noteq> [] \<and> hits \<noteq> [] \<and> i < length hits
      \<and> contains (lower artist) (lower (primary_artist_name (hits ! i)))
      \<and> (\<forall>j<i. \<not> contains (lower artist) (lower (primary_artist_name (hits ! j))))
    \<longrightarrow> select_hit artist hits = Some (result_id (hits ! i)))
   \<and> first_match (lower []) hits = None"
proof (intro conjI impI)
  assume a: "artist \<noteq> [] \<and> hits \<noteq> [] \<and> i < length hits
      \<and> contains (lower artist) (lower (primary_artist_name (hits ! i)))
      \<and> (\<forall>j<i. \<not> contains (lower artist) (lower (primary_artist_name (hits ! j))))"
  then have "first_match (lower artist) hits = Some (result_id (hits ! i))"
    by (intro first_match_at) simp_all
  then show "select_hit artist hits = Some (result_id (hits ! i))"
    by (simp add: select_hit_def)
next
  show "first_match (lower []) hits = None"
    by (simp add: first_match_None_iff)
qed

text \<open>
  The catalog answers a search for the artist \<open>drake\<close> with The Weeknd before Drake: the
  second hit is the first one that matches, and it is returned.
\<close>

theorem matcher_first_substring_match_witness:
  "select_hit ''drake'' hits_weeknd_drake = Some 22
   \<and> select_hit ''weeknd'' hits_weeknd_drake = Some 11"
proof -
  have "''drake'' \<noteq> [] \<and> hits_weeknd_drake \<noteq> [] \<and> 1 < length hits_weeknd_drake
      \<and> contains (lower ''drake'') (lower (primary_artist_name (hits_weeknd_drake ! 1)))
      \<and> (\<forall>j<1. \<not> contains (lower ''drake'')
                    (lower (primary_artist_name (hits_weeknd_drake ! j))))"
    unfolding hits_weeknd_drake_def by code_simp
  with matcher_first_substring_match [of "''drake''" hits_weeknd_drake 1]
  have d: "select_hit ''drake'' hits_weeknd_drake = Some (result_id (hits_weeknd_drake ! 1))"
    by blast
  have "''weeknd'' \<noteq> [] \<and> hits_weeknd_drake \<noteq> [] \<and> 0 < length hits_weeknd_drake
      \<and> contains (lower ''weeknd'') (lower (primary_artist_name (hits_weeknd_drake ! 0)))
      \<and> (\<forall>j<0. \<not> contains (lower ''weeknd'')
                    (lower (primary_artist_name (hits_weeknd_drake ! j))))"
    unfolding hits_weeknd_drake_def by code_simp
  with matcher_first_substring_match [of "''weeknd''" hits_weeknd_drake 0]
  have w: "select_hit ''weeknd'' hits_weeknd_drake = Some (result_id (hits_weeknd_drake ! 0))"
    by blast
  from d w show ?thesis by (simp add: hits_weeknd_drake_def)
qed

text \<open>
  Claim C2. If no hit satisfies the substring match and the hit list is not empty, the
  matcher returns the identifier of the first hit; and the matcher returns no identifier
  if and only if the hit list is empty.
\<close>

theorem matcher_fallback:
  "((\<forall>h \<in> set hits. \<not> (lower artist \<noteq> []
                           \<and> contains (lower artist) (lower (primary_artist_name h))))
      \<and> hits \<noteq> []
    \<longrightarrow> select_hit artist hits = Some (result_id (hd hits)))
   \<and> (select_hit artist hits = None \<longleftrightarrow> hits = [])"
proof (intro conjI impI)
  assume "(\<forall>h \<in> set hits. \<not> (lower artist \<noteq> []
                           \<and> contains (lower artist) (lower (primary_artist_name h))))
      \<and> hits \<noteq> []"
  then have "first_match (lower artist) hits = None" "hits \<noteq> []"
    by (simp_all add: first_match_None_iff)
  then show "select_hit artist hits = Some (result_id (hd hits))"
    by (simp add: select_hit_def)
next
  show "select_hit artist hits = None \<longleftrightarrow> hits = []"
    by (cases hits) (auto simp: select_hit_def Let_def split: option.splits)
qed

text \<open>
  Neither X nor Y contains Z: the first hit is returned. With no hit there is no match.
\<close>

theorem matcher_fallback_witness:
  "select_hit ''Z'' hits_x_y = Some 7 \<and> select_hit ''Z'' [] = None"
proof -
  have "(\<forall>h \<in> set hits_x_y. \<not> (lower ''Z'' \<noteq> []
                           \<and> contains (lower ''Z'') (lower (primary_artist_name h))))
      \<and> hits_x_y \<noteq> []"
    unfolding hits_x_y_def by code_simp
  with matcher_fallback [of hits_x_y "''Z''"]
  have f: "select_hit ''Z'' hits_x_y = Some (result_id (hd hits_x_y))" by blast
  from matcher_fallback [of "[]" "''Z''"] have e: "select_hit ''Z'' [] = None" by blast
  from f e show ?thesis by (simp add: hits_x_y_def)
qed

section \<open>Metadata extractor: properties\<close>

text \<open>
  The claim of C4 as it is written fails at the empty title. Split on the separator, the
  empty title has exactly one part, so the claim has the extractor return the whole title
  as track and the empty string as artist; \<open>_get_spotify_metadata\<close> tests \<open>not title\<close>
  before it splits and raises \<open>ValueError\<close>.
\<close>

theorem spotify_empty_title_counterexample:
  "length (split title_sep []) = 1
   \<and> fst (get_spotify_metadata (oembed_const (titled [])) ''u'' io0) \<noteq> Inr ([], [])"
  by (simp add: get_spotify_metadata_def oembed_const_def titled_def dict_get_def Let_def
        split.simps title_sep_def)

text \<open>
  Claim C4, amended. Let the Spotify embed endpoint give an object with a title, a string. If the title is not
  empty and splits on the separator \<open>" - "\<close> into at least two parts, the extractor
  returns the first part trimmed as track and the last part trimmed as artist. If the title
  is not empty and has exactly one part, which is the case exactly when the separator does
  not occur in it, the extractor returns the whole title as track and the empty string as
  artist. A split has at least one part, so there is no third case. The empty title is an
  extraction failure: \<open>ValueError\<close>, title not found.
\<close>

theorem spotify_title_split:
  assumes "ep (''https://open.spotify.com/oembed?url='' @ url) = OembedData (JObj d)"
    and "map_of d ''title'' = Some (JStr title)"
  shows "(title \<noteq> [] \<and> 2 \<le> length (split title_sep title)
            \<longrightarrow> fst (get_spotify_metadata ep url s)
                = Inr (strip (hd (split title_sep title)), strip (last (split title_sep title))))
       \<and> (title \<noteq> [] \<and> length (split title_sep title) = 1
            \<longrightarrow> fst (get_spotify_metadata ep url s) = Inr (title, []))
       \<and> (length (split title_sep title) = 1 \<longleftrightarrow> \<not> contains title_sep title)
       \<and> (2 \<le> length (split title_sep title) \<or> length (split title_sep title) = 1)
       \<and> (title = []
            \<longrightarrow> fst (get_spotify_metadata ep url s)
                = Inl (ValueError ''Invalid Spotify metadata: title not found.''))"
proof -
  have "title_sep \<noteq> []" by (simp add: title_sep_def)
  then have one: "length (split title_sep title) = 1 \<longleftrightarrow> \<not> contains title_sep title"
    by (rule split_single_iff)
  have two: "2 \<le> length (split title_sep title) \<or> length (split title_sep title) = 1"
    by (rule length_split_cases)
  have run: "(title \<noteq> [] \<and> 2 \<le> length (split title_sep title)
            \<longrightarrow> fst (get_spotify_metadata ep url s)
                = Inr (strip (hd (split title_sep title)), strip (last (split title_sep title))))
       \<and> (title \<noteq> [] \<and> length (split title_sep title) = 1
            \<longrightarrow> fst (get_spotify_metadata ep url s) = Inr (title, []))
       \<and> (title = []
            \<longrightarrow> fst (get_spotify_metadata ep url s)
                = Inl (ValueError ''Invalid Spotify metadata: title not found.''))"
    using assms by (simp add: get_spotify_metadata_def dict_get_def Let_def hd_map last_map)
  from run one two show ?thesis by blast
qed

theorem spotify_title_split_witness:
  "fst (get_spotify_metadata (oembed_const (titled ''Song Name - Artist Name''))
         ''u'' io0)
     = Inr (''Song Name'', ''Artist Name'')
   \<and> fst (get_spotify_metadata (oembed_const (titled ''Song Name'')) ''u'' io0)
     = Inr (''Song Name'', [])
   \<and> fst (get_spotify_metadata (oembed_const (titled [])) ''u'' io0)
     = Inl (ValueError ''Invalid Spotify metadata: title not found.'')"
proof -
  let ?t = "''Song Name - Artist Name''"
  have body: "oembed_const (titled t) (''https://open.spotify.com/oembed?url='' @ ''u'')
          = OembedData (JObj [(''title'', JStr t)])" for t
    by (simp add: oembed_const_def titled_def)
  have title: "map_of [(''title'', JStr t)] ''title'' = Some (JStr t)" for t
    by simp
  have two: "?t \<noteq> [] \<and> 2 \<le> length (split title_sep ?t)"
    by code_simp
  have track: "strip (hd (split title_sep ?t)) = ''Song Name''"
    by code_simp
  have artist: "strip (last (split title_sep ?t)) = ''Artist Name''"
    by code_simp
  from spotify_title_split [where ep = "oembed_const (titled ?t)" and url = "''u''" and s = io0,
         OF body [of ?t] title [of ?t]] two
  have "fst (get_spotify_metadata (oembed_const (titled ?t)) ''u'' io0)
          = Inr (strip (hd (split title_sep ?t)), strip (last (split title_sep ?t)))"
    by blast
  then have a: "fst (get_spotify_metadata (oembed_const (titled ?t)) ''u'' io0)
          = Inr (''Song Name'', ''Artist Name'')"
    by (simp only: track artist)
  have one: "''Song Name'' \<noteq> [] \<and> length (split title_sep ''Song Name'') = 1"
    by code_simp
  from spotify_title_split [where ep = "oembed_const (titled ''Song Name'')" and url = "''u''" and s = io0,
         OF body [of "''Song Name''"] title [of "''Song Name''"]] one
  have b: "fst (get_spotify_metadata (oembed_const (titled ''Song Name'')) ''u'' io0)
     = Inr (''Song Name'', [])"
    by blast
  from spotify_title_split [where ep = "oembed_const (titled [])" and url = "''u''" and s = io0,
         OF body [of "[]"] title [of "[]"]]
  have c: "fst (get_spotify_metadata (oembed_const (titled [])) ''u'' io0)
     = Inl (ValueError ''Invalid Spotify metadata: title not found.'')"
    by blast
  from a b c show ?thesis by blast
qed

text \<open>
  The claim of C5 as it is written fails at two inputs. At the empty title
  \<open>_get_soundcloud_metadata\<close> raises \<open>ValueError\<close> where the claim has it return the whole
  title and the empty artist. At the title \<open>A - B  - C\<close> the remaining parts are \<open>B\<close> with a
  space after it and \<open>C\<close>: joined again and trimmed they give \<open>B  - C\<close>, with two spaces,
  while the extractor trims each part before it joins them and returns \<open>B - C\<close>.
\<close>

theorem soundcloud_title_counterexample:
  "length (split title_sep []) = 1
   \<and> fst (get_soundcloud_metadata (oembed_const (titled [])) ''u'' io0) \<noteq> Inr ([], [])
   \<and> 2 \<le> length (split title_sep ''A - B  - C'')
   \<and> strip (join title_sep (tl (split title_sep ''A - B  - C''))) = ''B  - C''
   \<and> fst (get_soundcloud_metadata (oembed_const (titled ''A - B  - C'')) ''u'' io0)
       = Inr (''B - C'', ''A'')"
  by code_simp

text \<open>
  Claim C5, amended. Let the SoundCloud embed endpoint give an object with a title, a
  string. If the title is not empty and splits on the separator \<open>" - "\<close> into at least two
  parts, the extractor returns the first part trimmed as artist; and it returns as track the
  remaining parts, each trimmed, joined again with \<open>" - "\<close>, which is stated for the titles
  where that text has no whitespace at either end: such are the titles whose first and last
  remaining parts are not blank. If the title is not empty and has exactly one part, which
  is the case exactly when the separator does not occur in it, the extractor returns the
  whole title as track and the empty string as artist. A split has at least one part. The
  empty title is an extraction failure: \<open>ValueError\<close>, title not found.
\<close>

theorem soundcloud_title_split:
  assumes "ep (''https://soundcloud.com/oembed?format=json&url='' @ url) = OembedData (JObj d)"
    and "map_of d ''title'' = Some (JStr title)"
  shows "(title \<noteq> [] \<and> 2 \<le> length (split title_sep title)
            \<longrightarrow> (\<exists>track. fst (get_soundcloud_metadata ep url s)
                          = Inr (track, strip (hd (split title_sep title)))))
       \<and> (title \<noteq> [] \<and> 2 \<le> length (split title_sep title)
          \<and> trimmed (join title_sep (map strip (tl (split title_sep title))))
            \<longrightarrow> fst (get_soundcloud_metadata ep url s)
                = Inr (join title_sep (map strip (tl (split title_sep title))),
                       strip (hd (split title_sep title))))
       \<and> (2 \<le> length (split title_sep title)
          \<and> strip (hd (tl (split title_sep title))) \<noteq> []
          \<and> strip (last (split title_sep title)) \<noteq> []
            \<longrightarrow> trimmed (join title_sep (map strip (tl (split title_sep title)))))
       \<and> (title \<noteq> [] \<and> length (split title_sep title) = 1
            \<longrightarrow> fst (get_soundcloud_metadata ep url s) = Inr (title, []))
       \<and> (length (split title_sep title) = 1 \<longleftrightarrow> \<not> contains title_sep title)
       \<and> (2 \<le> length (split title_sep title) \<or> length (split title_sep title) = 1)
       \<and> (title = []
            \<longrightarrow> fst (get_soundcloud_metadata ep url s)
                = Inl (ValueError ''Invalid SoundCloud metadata: title not found.''))"
proof -
  let ?parts = "split title_sep title"
  have "title_sep \<noteq> []" by (simp add: title_sep_def)
  then have one: "length ?parts = 1 \<longleftrightarrow> \<not> contains title_sep title"
    by (rule split_single_iff)
  have two: "2 \<le> length ?parts \<or> length ?parts = 1"
    by (rule length_split_cases)
  have run: "(title \<noteq> [] \<and> 2 \<le> length ?parts
            \<longrightarrow> fst (get_soundcloud_metadata ep url s)
                = Inr (join title_sep (map strip (tl ?parts)), strip (hd ?parts)))
       \<and> (title \<noteq> [] \<and> length ?parts = 1
            \<longrightarrow> fst (get_soundcloud_metadata ep url s) = Inr (title, []))
       \<and> (title = []
            \<longrightarrow> fst (get_soundcloud_metadata ep url s)
                = Inl (ValueError ''Invalid SoundCloud metadata: title not found.''))"
    using assms by (simp add: get_soundcloud_metadata_def dict_get_def Let_def hd_map map_tl)
  have tr: "trimmed (join title_sep (map strip (tl ?parts)))"
    if "2 \<le> length ?parts" "strip (hd (tl ?parts)) \<noteq> []" "strip (last ?parts) \<noteq> []"
  proof -
    from that(1) have ne: "tl ?parts \<noteq> []"
      by (cases ?parts) auto
    then have "last (tl ?parts) = last ?parts"
      by (cases ?parts) auto
    with that(3) have l: "strip (last (tl ?parts)) \<noteq> []" by simp
    from ne that(2) l show ?thesis by (rule trimmed_join_strip)
  qed
  from run one two tr show ?thesis by blast
qed

theorem soundcloud_title_split_witness:
  "fst (get_soundcloud_metadata
          (oembed_const (titled ''Artist - Part One - Part Two'')) ''u'' io0)
     = Inr (''Part One - Part Two'', ''Artist'')
   \<and> trimmed ''Part One - Part Two''
   \<and> fst (get_soundcloud_metadata (oembed_const (titled ''Part One'')) ''u'' io0)
     = Inr (''Part One'', [])
   \<and> fst (get_soundcloud_metadata (oembed_const (titled [])) ''u'' io0)
     = Inl (ValueError ''Invalid SoundCloud metadata: title not found.'')"
proof -
  let ?t = "''Artist - Part One - Part Two''"
  have body: "oembed_const (titled t) (''https://soundcloud.com/oembed?format=json&url='' @ ''u'')
          = OembedData (JObj [(''title'', JStr t)])" for t
    by (simp add: oembed_const_def titled_def)
  have title: "map_of [(''title'', JStr t)] ''title'' = Some (JStr t)" for t
    by simp
  have two: "?t \<noteq> [] \<and> 2 \<le> length (split title_sep ?t)"
    by code_simp
  have blank: "strip (hd (tl (split title_sep ?t))) \<noteq> []
               \<and> strip (last (split title_sep ?t)) \<noteq> []"
    by code_simp
  have track: "join title_sep (map strip (tl (split title_sep ?t))) = ''Part One - Part Two''"
    by code_simp
  have artist: "strip (hd (split title_sep ?t)) = ''Artist''"
    by code_simp
  note split2 = soundcloud_title_split [where ep = "oembed_const (titled ?t)" and url = "''u''" and s = io0,
         OF body [of ?t] title [of ?t]]
  from split2 two blank
  have tr: "trimmed (join title_sep (map strip (tl (split title_sep ?t))))"
    by blast
  with split2 two
  have "fst (get_soundcloud_metadata (oembed_const (titled ?t)) ''u'' io0)
          = Inr (join title_sep (map strip (tl (split title_sep ?t))),
                 strip (hd (split title_sep ?t)))"
    by blast
  then have a: "fst (get_soundcloud_metadata (oembed_const (titled ?t)) ''u'' io0)
          = Inr (''Part One - Part Two'', ''Artist'')"
    by (simp only: track artist)
  from tr have a': "trimmed ''Part One - Part Two''"
    by (simp only: track)
  have one: "''Part One'' \<noteq> [] \<and> length (split title_sep ''Part One'') = 1"
    by code_simp
  from soundcloud_title_split [where ep = "oembed_const (titled ''Part One'')" and url = "''u''" and s = io0,
         OF body [of "''Part One''"] title [of "''Part One''"]] one
  have b: "fst (get_soundcloud_metadata (oembed_const (titled ''Part One'')) ''u'' io0)
     = Inr (''Part One'', [])"
    by blast
  from soundcloud_title_split [where ep = "oembed_const (titled [])" and url = "''u''" and s = io0,
         OF body [of "[]"] title [of "[]"]]
  have c: "fst (get_soundcloud_metadata (oembed_const (titled [])) ''u'' io0)
     = Inl (ValueError ''Invalid SoundCloud metadata: title not found.'')"
    by blast
  from a a' b c show ?thesis by blast
qed

text \<open>
  Outside the titles of the amended claim: when the first or the last of several remaining
  parts is blank, the track begins or ends with the space of the separator. At the title
  \<open>A -  - B\<close> the remaining parts are the empty string and \<open>B\<close>.
\<close>

lemma soundcloud_blank_part:
  "fst (get_soundcloud_metadata (oembed_const (titled ''A -  - B'')) ''u'' io0)
     = Inr ('' - B'', ''A'')
   \<and> \<not> trimmed '' - B''"
  by code_simp

section \<open>Filename sanitizer: properties\<close>

text \<open>
  Claim C8. The filename sanitizer is idempotent: for every string, sanitizing the
  sanitized string gives the sanitized string. The first pass leaves only characters the
  pattern keeps and no whitespace at either end, and it leaves no space, so the second pass
  deletes nothing, strips nothing and replaces nothing.
\<close>

theorem sanitize_filename_idempotent:
  "sanitize_filename (sanitize_filename s) = sanitize_filename s"
proof -
  define ok where "ok = (\<lambda>c. isword c \<or> isspace c \<or> c \<in> set ''-_().'')"
  define m where "m = (\<lambda>c. if c = CHR '' '' then CHR ''_'' else c)"
  define t where "t = strip (filter ok s)"
  have san: "\<And>x. sanitize_filename x = map m (strip (filter ok x))"
    by (simp add: sanitize_filename_def ok_def m_def)
  have ok_m: "\<And>c. ok c \<Longrightarrow> ok (m c)" by (auto simp: ok_def m_def)
  have sp: "isspace CHR '' ''" by (simp add: isspace_def)
  have m_sp: "\<And>c. \<not> isspace c \<Longrightarrow> m c = c" using sp by (auto simp: m_def)
  have m_nsp: "\<And>c. \<not> isspace c \<Longrightarrow> \<not> isspace (m c)" using m_sp by simp
  have mm: "\<And>c. m (m c) = m c" by (simp add: m_def)
  have "set t \<subseteq> set (filter ok s)" unfolding t_def by (rule set_strip)
  then have all_ok: "\<forall>c \<in> set t. ok c" by auto
  then have "\<forall>c \<in> set (map m t). ok c" using ok_m by auto
  then have f: "filter ok (map m t) = map m t" by (simp add: filter_id_conv)
  have tt: "trimmed t" unfolding t_def by (rule trimmed_strip)
  have "trimmed (map m t)"
  proof (cases "t = []")
    case True
    then show ?thesis by (simp add: trimmed_def)
  next
    case False
    with tt have "\<not> isspace (hd t)" "\<not> isspace (last t)" by (simp_all add: trimmed_def)
    with False show ?thesis by (simp add: trimmed_def hd_map last_map m_nsp)
  qed
  then have s: "strip (map m t) = map m t" by (rule strip_trimmed_id)
  have "sanitize_filename (sanitize_filename s) = map m (strip (filter ok (map m t)))"
    by (simp add: san t_def)
  also have "\<dots> = map m (map m t)" by (simp add: f s)
  also have "\<dots> = map m t" by (simp add: mm)
  also have "\<dots> = sanitize_filename s" by (simp add: san t_def)
  finally show ?thesis .
qed

theorem sanitize_filename_idempotent_witness:
  "sanitize_filename (sanitize_filename ''  Hello / World: (Live) v1.0! '')
     = ''Hello__World_(Live)_v1.0''"
proof -
  have "sanitize_filename ''  Hello / World: (Live) v1.0! '' = ''Hello__World_(Live)_v1.0''"
    by code_simp
  with sanitize_filename_idempotent [of "''  Hello / World: (Live) v1.0! ''"]
  show ?thesis by simp
qed

section \<open>Orchestrator: properties\<close>

lemma get_spotify_metadata_frame:
  "stderr (snd (get_spotify_metadata ep url s)) = stderr s
   \<and> stdout (snd (get_spotify_metadata ep url s)) = stdout s
   \<and> fs (snd (get_spotify_metadata ep url s)) = fs s
   \<and> sent (snd (get_spotify_metadata ep url s))
       = sent s @ [OembedRequest (''https://open.spotify.com/oembed?url='' @ url)]"
  by (simp add: get_spotify_metadata_def Let_def send_def
           split: oembed_response.splits json.splits)

lemma get_soundcloud_metadata_frame:
  "stderr (snd (get_soundcloud_metadata ep url s)) = stderr s
   \<and> stdout (snd (get_soundcloud_metadata ep url s)) = stdout s
   \<and> fs (snd (get_soundcloud_metadata ep url s)) = fs s
   \<and> sent (snd (get_soundcloud_metadata ep url s))
       = sent s @ [OembedRequest (''https://soundcloud.com/oembed?format=json&url='' @ url)]"
  by (simp add: get_soundcloud_metadata_def Let_def send_def
           split: oembed_response.splits json.splits)

lemma link_metadata_frame:
  "stderr (snd (link_metadata w a s)) = stderr s
   \<and> stdout (snd (link_metadata w a s)) = stdout s
   \<and> fs (snd (link_metadata w a s)) = fs s
   \<and> (\<exists>rs. sent (snd (link_metadata w a s)) = sent s @ rs \<and> (\<forall>r \<in> set rs. \<exists>t. r = OembedRequest t))"
  by (simp add: link_metadata_def get_spotify_metadata_frame get_soundcloud_metadata_frame)

lemma get_spotify_metadata_error:
  "fst (get_spotify_metadata ep url s) = Inl e
   \<Longrightarrow> (\<exists>m. e = ValueError m) \<or> (\<exists>m. e = AttributeError m)"
  by (auto simp: get_spotify_metadata_def Let_def no_attribute_def
           split: oembed_response.splits json.splits if_splits)

lemma get_soundcloud_metadata_error:
  "fst (get_soundcloud_metadata ep url s) = Inl e
   \<Longrightarrow> (\<exists>m. e = ValueError m) \<or> (\<exists>m. e = AttributeError m)"
  by (auto simp: get_soundcloud_metadata_def Let_def no_attribute_def
           split: oembed_response.splits json.splits if_splits)

lemma link_metadata_error:
  "fst (link_metadata w a s) = Inl e
   \<Longrightarrow> (\<exists>m. e = ValueError m) \<or> (\<exists>m. e = AttributeError m)"
  by (auto simp: link_metadata_def split: if_splits
           dest: get_spotify_metadata_error get_soundcloud_metadata_error)

lemma error_labelled_write:
  "error_labelled (write_stderr m s) \<longleftrightarrow> error_labelled s \<or> prefix ''[ERROR]'' m"
  by (auto simp: error_labelled_def write_stderr_def list_ex_iff)

lemma error_labelled_send [simp]: "error_labelled (send r s) = error_labelled s"
  by (simp add: error_labelled_def send_def)

lemma error_labelled_link [simp]:
  "error_labelled (snd (link_metadata w a s)) = error_labelled s"
  by (simp add: error_labelled_def link_metadata_frame)

lemma not_error_labelled_io0 [simp]: "\<not> error_labelled io0"
  by (simp add: error_labelled_def io0_def)

lemma traceback_not_error: "\<not> prefix ''[ERROR]'' (traceback e)"
  by (simp add: traceback_def)

lemma main_extraction_failure:
  assumes "GENIUS_ACCESS_TOKEN w \<noteq> []" "GENIUS_ACCESS_TOKEN w \<noteq> token_placeholder"
    and "fst (link_metadata w a io0) = Inl (ValueError m)"
  shows "main w a io0
           = (Inl (SystemExit 1), write_stderr (''[ERROR] '' @ m @ nl) (snd (link_metadata w a io0)))"
proof -
  from assms(3) obtain s1 where lm: "link_metadata w a io0 = (Inl (ValueError m), s1)"
    by (cases "link_metadata w a io0") auto
  with assms(1,2) have "main w a io0
           = (Inl (SystemExit 1), write_stderr (''[ERROR] '' @ m @ nl) s1)"
    by (simp add: main_def Let_def)
  with lm show ?thesis by auto
qed

lemma get_spotify_metadata_reported:
  "reported_failure (ep (''https://open.spotify.com/oembed?url='' @ url))
   \<Longrightarrow> \<exists>m. fst (get_spotify_metadata ep url s) = Inl (ValueError m)"
  by (auto simp: get_spotify_metadata_def reported_failure_def Let_def
           split: oembed_response.splits json.splits)

lemma get_soundcloud_metadata_reported:
  "reported_failure (ep (''https://soundcloud.com/oembed?format=json&url='' @ url))
   \<Longrightarrow> \<exists>m. fst (get_soundcloud_metadata ep url s) = Inl (ValueError m)"
  by (auto simp: get_soundcloud_metadata_def reported_failure_def Let_def
           split: oembed_response.splits json.splits)

lemma main_empty_track:
  assumes "GENIUS_ACCESS_TOKEN w \<noteq> []" "GENIUS_ACCESS_TOKEN w \<noteq> token_placeholder"
    and "fst (link_metadata w a io0) = Inr ([], artist)"
  shows "main w a io0
           = (Inl (SystemExit 1),
              write_stderr (''[ERROR] Could not parse metadata from provided link.'' @ nl)
                (snd (link_metadata w a io0)))"
proof -
  from assms(3) obtain s1 where lm: "link_metadata w a io0 = (Inr ([], artist), s1)"
    by (cases "link_metadata w a io0") auto
  with assms(1,2) show ?thesis
    by (simp add: main_def Let_def)
qed

lemma main_to_search:
  assumes "GENIUS_ACCESS_TOKEN w \<noteq> []" "GENIUS_ACCESS_TOKEN w \<noteq> token_placeholder"
    and "fst (link_metadata w a io0) = Inr (track, artist)" "track \<noteq> []"
  shows "main w a io0 =
     (case search_genius (search_api w) track artist (GENIUS_ACCESS_TOKEN w)
             (snd (link_metadata w a io0)) of
        (Inl e, s2) \<Rightarrow> (Inl e, s2)
      | (Inr song_id, s2) \<Rightarrow>
     if \<not> id_truthy song_id then
       (Inl (SystemExit 1),
        write_stderr (''[ERROR] No matching song found on Genius.'' @ nl) s2)
     else
     (case get_genius_song (song_api w) (case song_id of Some i \<Rightarrow> i | None \<Rightarrow> 0)
             (GENIUS_ACCESS_TOKEN w) s2 of
        (Inl e, s3) \<Rightarrow> (Inl e, s3)
      | (Inr song, s3) \<Rightarrow>
     (let title = dict_get song ''title'' (JStr ''unknown_title'');
          need_lyrics = (lyrics a \<or> \<not> data a)
      in case (if need_lyrics then scrape_or_warn w song s3 else (Inr [], s3)) of
           (Inl e, s4) \<Rightarrow> (Inl e, s4)
         | (Inr lyrics_text, s4) \<Rightarrow>
     (case compose_output a song lyrics_text of
        Inl e \<Rightarrow> (Inl e, s4)
      | Inr out \<Rightarrow> emit (files w) a out title s4))))"
proof -
  from assms(3) obtain s1 where lm: "link_metadata w a io0 = (Inr (track, artist), s1)"
    by (cases "link_metadata w a io0") auto
  with assms(1,2,4) show ?thesis
    by (simp add: main_def Let_def)
qed

lemma run_exit_labelled:
  "main w a io0 = (Inl (SystemExit 1), write_stderr m s) \<Longrightarrow> prefix ''[ERROR]'' m \<Longrightarrow>
   fst (run w a) = 1 \<and> error_labelled (snd (run w a))"
  by (simp add: run_def error_labelled_write)

lemma run_uncaught:
  "main w a io0 = (Inl (HTTPError m), s) \<Longrightarrow> \<not> error_labelled s \<Longrightarrow>
   fst (run w a) = 1 \<and> \<not> error_labelled (snd (run w a))
   \<and> stderr (snd (run w a)) = stderr s @ [traceback (HTTPError m)]"
proof -
  assume m: "main w a io0 = (Inl (HTTPError m), s)" and n: "\<not> error_labelled s"
  from m have r: "run w a = (1, write_stderr (traceback (HTTPError m)) s)"
    by (simp add: run_def)
  from n have "\<not> error_labelled (write_stderr (traceback (HTTPError m)) s)"
    by (simp add: error_labelled_write traceback_not_error)
  moreover have "stderr (write_stderr (traceback (HTTPError m)) s)
                   = stderr s @ [traceback (HTTPError m)]"
    by (simp add: write_stderr_def)
  ultimately show ?thesis using r by simp
qed

lemma world_of_token:
  "GENIUS_ACCESS_TOKEN (world_of t f g p) \<noteq> []
   \<and> GENIUS_ACCESS_TOKEN (world_of t f g p) \<noteq> token_placeholder"
  by (simp add: world_of_def token_placeholder_def)

lemma world_of_apis:
  "search_api (world_of t f g p) tok q = f" "song_api (world_of t f g p) tok i = g"
  "song_page (world_of t f g p) u = p" "oembed (world_of t f g p) x = t"
  "files (world_of t f g p) operation = None"
  by (simp_all add: world_of_def)

lemma link_metadata_example:
  "fst (link_metadata (world_of title_song_artist f g p) args_spotify io0)
     = Inr (''Song'', ''Artist'') \<and> ''Song'' \<noteq> []"
proof -
  have "link_metadata (world_of title_song_artist f g p) args_spotify io0
          = get_spotify_metadata (\<lambda>target. title_song_artist) ''u'' io0"
    by (simp add: link_metadata_def world_of_def args_spotify_def opt_truthy_def)
  moreover have "fst (get_spotify_metadata (\<lambda>target. title_song_artist) ''u'' io0)
          = Inr (''Song'', ''Artist'')"
    by code_simp
  ultimately show ?thesis by simp
qed


text \<open>
  The claim of C6 as it is written fails for catalog errors. The search endpoint answers
  with status 500: \<open>_search_genius\<close> raises the \<open>HTTPError\<close> again, nothing between it
  and the top level handles it, and the process ends with status 1 without any message
  labelled \<open>[ERROR]\<close> on the error stream.
\<close>

theorem catalog_error_counterexample:
  "fst (run (world_of title_song_artist (HTTPFailure 500 ''500 Server Error'')
               (HTTPSuccess song_example) (PageFailure ''404'')) args_spotify) = 1
   \<and> \<not> error_labelled
         (snd (run (world_of title_song_artist (HTTPFailure 500 ''500 Server Error'')
                      (HTTPSuccess song_example) (PageFailure ''404'')) args_spotify))"
  by code_simp

text \<open>
  Claim C6, amended. With a credential in place, each of the following writes a message
  labelled \<open>[ERROR]\<close> to the error stream and ends the process with status 1: an extraction
  failure that the extractor reports (the request to the embed endpoint of the given link
  fails, or its body is no JSON text, or it is an object without a title or with a falsy
  one), a command line whose links are both absent or empty, an extracted track that is
  empty, an authentication failure (status 401 from the search or from the song endpoint),
  and a search without a usable match. A catalog error (any other failure status from the search or from
  the song endpoint) is raised again as \<open>HTTPError\<close> and handled nowhere: the process
  ends with status 1 as well, the error stream holds the traceback of the exception and
  nothing else, and no message labelled \<open>[ERROR]\<close> is written.
\<close>

theorem fatal_errors:
  assumes tok: "GENIUS_ACCESS_TOKEN w \<noteq> []" "GENIUS_ACCESS_TOKEN w \<noteq> token_placeholder"
  shows
    "(spotify a = Some u \<and> u \<noteq> []
        \<and> reported_failure (oembed w (''https://open.spotify.com/oembed?url='' @ u))
        \<longrightarrow> fst (run w a) = 1 \<and> error_labelled (snd (run w a)))
   \<and> (\<not> opt_truthy (spotify a) \<and> soundcloud a = Some u \<and> u \<noteq> []
        \<and> reported_failure (oembed w (''https://soundcloud.com/oembed?format=json&url='' @ u))
        \<longrightarrow> fst (run w a) = 1 \<and> error_labelled (snd (run w a)))
   \<and> (\<not> opt_truthy (spotify a) \<and> \<not> opt_truthy (soundcloud a)
        \<longrightarrow> fst (run w a) = 1 \<and> error_labelled (snd (run w a)))
   \<and> (fst (link_metadata w a io0) = Inr ([], performer)
        \<longrightarrow> fst (run w a) = 1 \<and> error_labelled (snd (run w a)))
   \<and> (fst (link_metadata w a io0) = Inr (track, artist) \<and> track \<noteq> [] \<longrightarrow>
        (search_api w (GENIUS_ACCESS_TOKEN w) (strip (track @ '' '' @ artist)) = HTTPFailure 401 m
           \<longrightarrow> fst (run w a) = 1 \<and> error_labelled (snd (run w a)))
      \<and> (search_api w (GENIUS_ACCESS_TOKEN w) (strip (track @ '' '' @ artist)) = HTTPSuccess hits
           \<and> \<not> id_truthy (select_hit artist hits)
           \<longrightarrow> fst (run w a) = 1 \<and> error_labelled (snd (run w a)))
      \<and> (search_api w (GENIUS_ACCESS_TOKEN w) (strip (track @ '' '' @ artist)) = HTTPSuccess hits
           \<and> select_hit artist hits = Some i \<and> i \<noteq> 0
           \<and> song_api w (GENIUS_ACCESS_TOKEN w) i = HTTPFailure 401 m
           \<longrightarrow> fst (run w a) = 1 \<and> error_labelled (snd (run w a)))
      \<and> (search_api w (GENIUS_ACCESS_TOKEN w) (strip (track @ '' '' @ artist))
             = HTTPFailure status_code m \<and> status_code \<noteq> 401
           \<longrightarrow> fst (main w a io0) = Inl (HTTPError m)
               \<and> fst (run w a) = 1 \<and> \<not> error_labelled (snd (run w a))
               \<and> stderr (snd (run w a)) = [traceback (HTTPError m)])
      \<and> (search_api w (GENIUS_ACCESS_TOKEN w) (strip (track @ '' '' @ artist)) = HTTPSuccess hits
           \<and> select_hit artist hits = Some i \<and> i \<noteq> 0
           \<and> song_api w (GENIUS_ACCESS_TOKEN w) i = HTTPFailure status_code m
           \<and> status_code \<noteq> 401
           \<longrightarrow> fst (main w a io0) = Inl (HTTPError m)
               \<and> fst (run w a) = 1 \<and> \<not> error_labelled (snd (run w a))
               \<and> stderr (snd (run w a)) = [traceback (HTTPError m)]))"
proof (intro conjI impI)
  have reported: "fst (run w a) = 1 \<and> error_labelled (snd (run w a))"
    if "fst (link_metadata w a io0) = Inl (ValueError msg)" for msg
  proof -
    from main_extraction_failure [OF tok that]
    show ?thesis by (rule run_exit_labelled) simp
  qed
  {
    assume h: "spotify a = Some u \<and> u \<noteq> []
        \<and> reported_failure (oembed w (''https://open.spotify.com/oembed?url='' @ u))"
    then have "link_metadata w a io0 = get_spotify_metadata (oembed w) u io0"
      by (simp add: link_metadata_def opt_truthy_def)
    with h get_spotify_metadata_reported [of "oembed w" u io0]
    obtain msg where "fst (link_metadata w a io0) = Inl (ValueError msg)" by auto
    from reported [OF this]
    show "fst (run w a) = 1" "error_labelled (snd (run w a))" by simp_all
  }
  {
    assume h: "\<not> opt_truthy (spotify a) \<and> soundcloud a = Some u \<and> u \<noteq> []
        \<and> reported_failure (oembed w (''https://soundcloud.com/oembed?format=json&url='' @ u))"
    then have "link_metadata w a io0 = get_soundcloud_metadata (oembed w) u io0"
      by (simp add: link_metadata_def opt_truthy_def)
    with h get_soundcloud_metadata_reported [of "oembed w" u io0]
    obtain msg where "fst (link_metadata w a io0) = Inl (ValueError msg)" by auto
    from reported [OF this]
    show "fst (run w a) = 1" "error_labelled (snd (run w a))" by simp_all
  }
  {
    assume "\<not> opt_truthy (spotify a) \<and> \<not> opt_truthy (soundcloud a)"
    then obtain msg where "fst (link_metadata w a io0) = Inl (ValueError msg)"
      by (simp add: link_metadata_def)
    from reported [OF this]
    show "fst (run w a) = 1" "error_labelled (snd (run w a))" by simp_all
  }
  {
    assume "fst (link_metadata w a io0) = Inr ([], performer)"
    from main_empty_track [OF tok this]
    have "fst (run w a) = 1 \<and> error_labelled (snd (run w a))"
      by (rule run_exit_labelled) simp
    then show "fst (run w a) = 1" "error_labelled (snd (run w a))" by simp_all
  }
next
  assume lm: "fst (link_metadata w a io0) = Inr (track, artist) \<and> track \<noteq> []"
  then have m: "main w a io0 =
     (case search_genius (search_api w) track artist (GENIUS_ACCESS_TOKEN w)
             (snd (link_metadata w a io0)) of
        (Inl e, s2) \<Rightarrow> (Inl e, s2)
      | (Inr song_id, s2) \<Rightarrow>
     if \<not> id_truthy song_id then
       (Inl (SystemExit 1),
        write_stderr (''[ERROR] No matching song found on Genius.'' @ nl) s2)
     else
     (case get_genius_song (song_api w) (case song_id of Some i \<Rightarrow> i | None \<Rightarrow> 0)
             (GENIUS_ACCESS_TOKEN w) s2 of
        (Inl e, s3) \<Rightarrow> (Inl e, s3)
      | (Inr song, s3) \<Rightarrow>
     (let title = dict_get song ''title'' (JStr ''unknown_title'');
          need_lyrics = (lyrics a \<or> \<not> data a)
      in case (if need_lyrics then scrape_or_warn w song s3 else (Inr [], s3)) of
           (Inl e, s4) \<Rightarrow> (Inl e, s4)
         | (Inr lyrics_text, s4) \<Rightarrow>
     (case compose_output a song lyrics_text of
        Inl e \<Rightarrow> (Inl e, s4)
      | Inr out \<Rightarrow> emit (files w) a out title s4))))"
    using main_to_search [OF tok] by blast
  have noerr: "stderr (snd (link_metadata w a io0)) = []"
    by (simp add: link_metadata_frame io0_def)
  let ?q = "strip (track @ '' '' @ artist)"
  let ?tok = "GENIUS_ACCESS_TOKEN w"
  {
    assume "search_api w ?tok ?q = HTTPFailure 401 m"
    then have "main w a io0 = (Inl (SystemExit 1),
        write_stderr (''[ERROR] Invalid Genius API access token: '' @ m)
          (send (SearchRequest ?tok ?q) (snd (link_metadata w a io0))))"
      by (simp add: m search_genius_def Let_def)
    then have "fst (run w a) = 1 \<and> error_labelled (snd (run w a))"
      by (rule run_exit_labelled) simp
    then show "fst (run w a) = 1" "error_labelled (snd (run w a))" by simp_all
  }
  {
    assume "search_api w ?tok ?q = HTTPSuccess hits \<and> \<not> id_truthy (select_hit artist hits)"
    then have "main w a io0 = (Inl (SystemExit 1),
        write_stderr (''[ERROR] No matching song found on Genius.'' @ nl)
          (send (SearchRequest ?tok ?q) (snd (link_metadata w a io0))))"
      by (simp add: m search_genius_def Let_def)
    then have "fst (run w a) = 1 \<and> error_labelled (snd (run w a))"
      by (rule run_exit_labelled) simp
    then show "fst (run w a) = 1" "error_labelled (snd (run w a))" by simp_all
  }
  {
    assume "search_api w ?tok ?q = HTTPSuccess hits \<and> select_hit artist hits = Some i \<and> i \<noteq> 0
           \<and> song_api w ?tok i = HTTPFailure 401 m"
    then have "main w a io0 = (Inl (SystemExit 1),
        write_stderr (''[ERROR] Invalid Genius API access token (HTTP 401 Unauthorized).'' @ nl)
          (send (SongRequest ?tok i) (send (SearchRequest ?tok ?q) (snd (link_metadata w a io0)))))"
      by (simp add: m search_genius_def get_genius_song_def id_truthy_def Let_def)
    then have "fst (run w a) = 1 \<and> error_labelled (snd (run w a))"
      by (rule run_exit_labelled) simp
    then show "fst (run w a) = 1" "error_labelled (snd (run w a))" by simp_all
  }
  {
    assume "search_api w ?tok ?q = HTTPFailure status_code m \<and> status_code \<noteq> 401"
    then have mm: "main w a io0 = (Inl (HTTPError m),
          send (SearchRequest ?tok ?q) (snd (link_metadata w a io0)))"
      by (simp add: m search_genius_def Let_def)
    then show "fst (main w a io0) = Inl (HTTPError m)" by simp
    have "\<not> error_labelled (send (SearchRequest ?tok ?q) (snd (link_metadata w a io0)))"
      by simp
    from run_uncaught [OF mm this] noerr
    show "fst (run w a) = 1" "\<not> error_labelled (snd (run w a))"
      "stderr (snd (run w a)) = [traceback (HTTPError m)]"
      by (simp_all add: send_def)
  }
  {
    assume "search_api w ?tok ?q = HTTPSuccess hits \<and> select_hit artist hits = Some i \<and> i \<noteq> 0
           \<and> song_api w ?tok i = HTTPFailure status_code m \<and> status_code \<noteq> 401"
    then have mm: "main w a io0 = (Inl (HTTPError m),
          send (SongRequest ?tok i) (send (SearchRequest ?tok ?q) (snd (link_metadata w a io0))))"
      by (simp add: m search_genius_def get_genius_song_def id_truthy_def Let_def)
    then show "fst (main w a io0) = Inl (HTTPError m)" by simp
    have "\<not> error_labelled (send (SongRequest ?tok i)
             (send (SearchRequest ?tok ?q) (snd (link_metadata w a io0))))"
      by simp
    from run_uncaught [OF mm this] noerr
    show "fst (run w a) = 1" "\<not> error_labelled (snd (run w a))"
      "stderr (snd (run w a)) = [traceback (HTTPError m)]"
      by (simp_all add: send_def)
  }
qed

theorem fatal_errors_witness:
  "(fst (run (world_of (OembedRequestException ''timed out'') (HTTPSuccess hits_one)
                (HTTPSuccess song_example) (PageFailure ''404'')) args_spotify) = 1
    \<and> error_labelled (snd (run (world_of (OembedRequestException ''timed out'')
                (HTTPSuccess hits_one) (HTTPSuccess song_example) (PageFailure ''404''))
                args_spotify)))
   \<and> (fst (run (world_of (OembedData (JObj [(''title'', JNull)])) (HTTPSuccess hits_one)
                (HTTPSuccess song_example) (PageFailure ''404'')) args_soundcloud) = 1
    \<and> error_labelled (snd (run (world_of (OembedData (JObj [(''title'', JNull)]))
                (HTTPSuccess hits_one) (HTTPSuccess song_example) (PageFailure ''404''))
                args_soundcloud)))
   \<and> (fst (run (world_of title_song_artist (HTTPSuccess hits_one)
                (HTTPSuccess song_example) (PageFailure ''404'')) args_empty_link) = 1
    \<and> error_labelled (snd (run (world_of title_song_artist (HTTPSuccess hits_one)
                (HTTPSuccess song_example) (PageFailure ''404'')) args_empty_link)))
   \<and> (fst (run (world_of (titled '' - Artist'') (HTTPSuccess hits_one)
                (HTTPSuccess song_example) (PageFailure ''404'')) args_spotify) = 1
    \<and> error_labelled (snd (run (world_of (titled '' - Artist'') (HTTPSuccess hits_one)
                (HTTPSuccess song_example) (PageFailure ''404'')) args_spotify)))
   \<and> (fst (run (world_of title_song_artist (HTTPFailure 401 ''401 Unauthorized'')
                (HTTPSuccess song_example) (PageFailure ''404'')) args_spotify) = 1
    \<and> error_labelled (snd (run (world_of title_song_artist (HTTPFailure 401 ''401 Unauthorized'')
                (HTTPSuccess song_example) (PageFailure ''404'')) args_spotify)))
   \<and> (fst (run (world_of title_song_artist (HTTPSuccess [])
                (HTTPSuccess song_example) (PageFailure ''404'')) args_spotify) = 1
    \<and> error_labelled (snd (run (world_of title_song_artist (HTTPSuccess [])
                (HTTPSuccess song_example) (PageFailure ''404'')) args_spotify)))
   \<and> (fst (run (world_of title_song_artist (HTTPSuccess hits_one)
                (HTTPFailure 401 ''401 Unauthorized'') (PageFailure ''404'')) args_spotify) = 1
    \<and> error_labelled (snd (run (world_of title_song_artist (HTTPSuccess hits_one)
                (HTTPFailure 401 ''401 Unauthorized'') (PageFailure ''404'')) args_spotify)))
   \<and> (fst (run (world_of title_song_artist (HTTPFailure 500 ''500 Server Error'')
                (HTTPSuccess song_example) (PageFailure ''404'')) args_spotify) = 1
    \<and> stderr (snd (run (world_of title_song_artist (HTTPFailure 500 ''500 Server Error'')
                (HTTPSuccess song_example) (PageFailure ''404'')) args_spotify))
        = [traceback (HTTPError ''500 Server Error'')])
   \<and> (fst (run (world_of title_song_artist (HTTPSuccess hits_one)
                (HTTPFailure 404 ''404 Not Found'') (PageFailure ''404'')) args_spotify) = 1
    \<and> stderr (snd (run (world_of title_song_artist (HTTPSuccess hits_one)
                (HTTPFailure 404 ''404 Not Found'') (PageFailure ''404'')) args_spotify))
        = [traceback (HTTPError ''404 Not Found'')])"
proof -
  note lm = link_metadata_example
  have sel: "select_hit ''Artist'' hits_one = Some 5 \<and> (5::int) \<noteq> 0"
    by code_simp
  have nosel: "\<not> id_truthy (select_hit ''Artist'' [])"
    by code_simp
  let ?w1 = "world_of (OembedRequestException ''timed out'') (HTTPSuccess hits_one)
                (HTTPSuccess song_example) (PageFailure ''404'')"
  have "spotify args_spotify = Some ''u'' \<and> ''u'' \<noteq> []
        \<and> reported_failure (oembed ?w1 (''https://open.spotify.com/oembed?url='' @ ''u''))"
    by code_simp
  with fatal_errors [where w = ?w1 and a = args_spotify and u = "''u''"]
  have c1: "fst (run ?w1 args_spotify) = 1 \<and> error_labelled (snd (run ?w1 args_spotify))"
    by (simp only: world_of_token simp_thms)
  let ?w1b = "world_of (OembedData (JObj [(''title'', JNull)])) (HTTPSuccess hits_one)
                (HTTPSuccess song_example) (PageFailure ''404'')"
  have "\<not> opt_truthy (spotify args_soundcloud) \<and> soundcloud args_soundcloud = Some ''u''
        \<and> ''u'' \<noteq> []
        \<and> reported_failure
            (oembed ?w1b (''https://soundcloud.com/oembed?format=json&url='' @ ''u''))"
    by code_simp
  with fatal_errors [where w = ?w1b and a = args_soundcloud and u = "''u''"]
  have c1b: "fst (run ?w1b args_soundcloud) = 1
             \<and> error_labelled (snd (run ?w1b args_soundcloud))"
    by (simp only: world_of_token simp_thms)
  let ?w1c = "world_of title_song_artist (HTTPSuccess hits_one)
                (HTTPSuccess song_example) (PageFailure ''404'')"
  have "\<not> opt_truthy (spotify args_empty_link) \<and> \<not> opt_truthy (soundcloud args_empty_link)"
    by code_simp
  with fatal_errors [where w = ?w1c and a = args_empty_link]
  have c1c: "fst (run ?w1c args_empty_link) = 1
             \<and> error_labelled (snd (run ?w1c args_empty_link))"
    by (simp only: world_of_token simp_thms)
  let ?w1d = "world_of (titled '' - Artist'') (HTTPSuccess hits_one)
                (HTTPSuccess song_example) (PageFailure ''404'')"
  have "fst (link_metadata ?w1d args_spotify io0) = Inr ([], ''Artist'')"
    by code_simp
  with fatal_errors [where w = ?w1d and a = args_spotify and performer = "''Artist''"]
  have c1d: "fst (run ?w1d args_spotify) = 1 \<and> error_labelled (snd (run ?w1d args_spotify))"
    by (simp only: world_of_token simp_thms)
  let ?w2 = "world_of title_song_artist (HTTPFailure 401 ''401 Unauthorized'')
                (HTTPSuccess song_example) (PageFailure ''404'')"
  from fatal_errors [where w = ?w2 and a = args_spotify and track = "''Song''" and artist = "''Artist''"
      and m = "''401 Unauthorized''"] lm [of "HTTPFailure 401 ''401 Unauthorized''"]
  have c2: "fst (run ?w2 args_spotify) = 1 \<and> error_labelled (snd (run ?w2 args_spotify))"
    by (simp add: world_of_apis world_of_token)
  let ?w3 = "world_of title_song_artist (HTTPSuccess [])
                (HTTPSuccess song_example) (PageFailure ''404'')"
  from fatal_errors [where w = ?w3 and a = args_spotify and track = "''Song''" and artist = "''Artist''"
      and hits = "[]"] lm [of "HTTPSuccess []"] nosel
  have c3: "fst (run ?w3 args_spotify) = 1 \<and> error_labelled (snd (run ?w3 args_spotify))"
    by (simp add: world_of_apis world_of_token)
  let ?w4 = "world_of title_song_artist (HTTPSuccess hits_one)
                (HTTPFailure 401 ''401 Unauthorized'') (PageFailure ''404'')"
  from fatal_errors [where w = ?w4 and a = args_spotify and track = "''Song''" and artist = "''Artist''"
      and hits = hits_one and i = 5 and m = "''401 Unauthorized''"]
    lm [of "HTTPSuccess hits_one"] sel
  have c4: "fst (run ?w4 args_spotify) = 1 \<and> error_labelled (snd (run ?w4 args_spotify))"
    by (simp add: world_of_apis world_of_token)
  let ?w5 = "world_of title_song_artist (HTTPFailure 500 ''500 Server Error'')
                (HTTPSuccess song_example) (PageFailure ''404'')"
  from fatal_errors [where w = ?w5 and a = args_spotify and track = "''Song''" and artist = "''Artist''"
      and status_code = 500 and m = "''500 Server Error''"]
    lm [of "HTTPFailure 500 ''500 Server Error''"]
  have c5: "fst (run ?w5 args_spotify) = 1
      \<and> stderr (snd (run ?w5 args_spotify)) = [traceback (HTTPError ''500 Server Error'')]"
    by (simp add: world_of_apis world_of_token)
  let ?w6 = "world_of title_song_artist (HTTPSuccess hits_one)
                (HTTPFailure 404 ''404 Not Found'') (PageFailure ''404'')"
  from fatal_errors [where w = ?w6 and a = args_spotify and track = "''Song''" and artist = "''Artist''"
      and hits = hits_one and i = 5 and status_code = 404 and m = "''404 Not Found''"]
    lm [of "HTTPSuccess hits_one"] sel
  have c6: "fst (run ?w6 args_spotify) = 1
      \<and> stderr (snd (run ?w6 args_spotify)) = [traceback (HTTPError ''404 Not Found'')]"
    by (simp add: world_of_apis world_of_token)
  from c1 c1b c1c c1d c2 c3 c4 c5 c6 show ?thesis by blast
qed

text \<open>
  Outside the amended claim: an embed body that is decoded to something else than an object,
  or to an object whose title is truthy and no string. The attribute lookup raises
  \<open>AttributeError\<close>, which the handlers of the extractor and of \<open>main\<close> do not take; here
  the body is the empty list.
\<close>

lemma oembed_body_not_object:
  "fst (run (world_of (OembedData (JArr [])) (HTTPSuccess hits_one)
               (HTTPSuccess song_example) (PageFailure ''404'')) args_spotify) = 1
   \<and> stderr (snd (run (world_of (OembedData (JArr [])) (HTTPSuccess hits_one)
               (HTTPSuccess song_example) (PageFailure ''404'')) args_spotify))
       = [traceback (no_attribute (JArr []) ''get'')]
   \<and> \<not> error_labelled
         (snd (run (world_of (OembedData (JArr [])) (HTTPSuccess hits_one)
                      (HTTPSuccess song_example) (PageFailure ''404'')) args_spotify))"
  by code_simp

lemma link_metadata_search_api [simp]:
  "link_metadata (w\<lparr>search_api := f\<rparr>) a s = link_metadata w a s"
  by (simp add: link_metadata_def)

lemma falsy_id_nonempty:
  "hits \<noteq> [] \<Longrightarrow> \<not> id_truthy (select_hit artist hits) \<Longrightarrow> select_hit artist hits = Some 0"
  by (cases hits) (auto simp: select_hit_def id_truthy_def Let_def split: option.splits)

lemma main_no_match:
  assumes tok: "GENIUS_ACCESS_TOKEN w \<noteq> []" "GENIUS_ACCESS_TOKEN w \<noteq> token_placeholder"
    and lm: "fst (link_metadata w a io0) = Inr (track, artist)" "track \<noteq> []"
    and found: "search_api w (GENIUS_ACCESS_TOKEN w) (strip (track @ '' '' @ artist))
                  = HTTPSuccess hits"
    and falsy: "\<not> id_truthy (select_hit artist hits)"
  shows "main w a io0 =
           (Inl (SystemExit 1),
            write_stderr (''[ERROR] No matching song found on Genius.'' @ nl)
              (send (SearchRequest (GENIUS_ACCESS_TOKEN w) (strip (track @ '' '' @ artist)))
                 (snd (link_metadata w a io0))))"
  using found falsy
  by (simp add: main_to_search [OF tok lm] search_genius_def Let_def)

text \<open>
  Claim C10. Let the search succeed with a non-empty hit list from which the matcher
  returns a falsy identifier, which for an integer is 0. The orchestrator then behaves
  exactly as it does when there is no match: it writes the message that no matching song
  was found, labelled \<open>[ERROR]\<close>, to the error stream and ends with status 1; the whole
  run equals the run in which the search gives no hit at all, and no request for a song is
  sent.
\<close>

theorem falsy_identifier_is_no_match:
  assumes tok: "GENIUS_ACCESS_TOKEN w \<noteq> []" "GENIUS_ACCESS_TOKEN w \<noteq> token_placeholder"
    and lm: "fst (link_metadata w a io0) = Inr (track, artist)" "track \<noteq> []"
    and found: "search_api w (GENIUS_ACCESS_TOKEN w) (strip (track @ '' '' @ artist))
                  = HTTPSuccess hits"
    and ne: "hits \<noteq> []"
    and falsy: "\<not> id_truthy (select_hit artist hits)"
  shows "select_hit artist hits = Some 0
       \<and> run w a =
           (1, write_stderr (''[ERROR] No matching song found on Genius.'' @ nl)
                 (send (SearchRequest (GENIUS_ACCESS_TOKEN w) (strip (track @ '' '' @ artist)))
                    (snd (link_metadata w a io0))))
       \<and> run w a = run (w\<lparr>search_api := \<lambda>token query. HTTPSuccess []\<rparr>) a
       \<and> (\<forall>token song_id. SongRequest token song_id \<notin> set (sent (snd (run w a))))"
proof -
  let ?q = "strip (track @ '' '' @ artist)"
  let ?msg = "''[ERROR] No matching song found on Genius.'' @ nl"
  let ?s2 = "send (SearchRequest (GENIUS_ACCESS_TOKEN w) ?q) (snd (link_metadata w a io0))"
  from ne falsy have zero: "select_hit artist hits = Some 0" by (rule falsy_id_nonempty)
  from main_no_match [OF tok lm found falsy]
  have m: "main w a io0 = (Inl (SystemExit 1), write_stderr ?msg ?s2)" .
  then have r: "run w a = (1, write_stderr ?msg ?s2)" by (simp add: run_def)
  let ?w' = "w\<lparr>search_api := \<lambda>token query. HTTPSuccess []\<rparr>"
  have "\<not> id_truthy (select_hit artist [])" by (simp add: select_hit_def id_truthy_def)
  with main_no_match [of ?w' a track artist "[]"] tok lm
  have "main ?w' a io0 = (Inl (SystemExit 1), write_stderr ?msg ?s2)" by simp
  then have r': "run ?w' a = (1, write_stderr ?msg ?s2)" by (simp add: run_def)
  from link_metadata_frame [of w a io0] obtain rs where
    rs: "sent (snd (link_metadata w a io0)) = sent io0 @ rs" "\<forall>r \<in> set rs. \<exists>t. r = OembedRequest t"
    by blast
  have "sent (write_stderr ?msg ?s2) = rs @ [SearchRequest (GENIUS_ACCESS_TOKEN w) ?q]"
    using rs(1) by (simp add: write_stderr_def send_def io0_def)
  with rs(2) have "\<forall>token song_id. SongRequest token song_id \<notin> set (sent (write_stderr ?msg ?s2))"
    by auto
  with zero r r' show ?thesis by simp
qed

text \<open>The search gives one hit, whose identifier is 0.\<close>

theorem falsy_identifier_is_no_match_witness:
  "select_hit ''Artist'' hits_zero = Some 0
   \<and> run (world_of title_song_artist (HTTPSuccess hits_zero) (HTTPSuccess song_example)
            (PageFailure ''404'')) args_spotify
       = (1, \<lparr>stdout = [],
              stderr = [''[ERROR] No matching song found on Genius.'' @ nl],
              sent = [OembedRequest ''https://open.spotify.com/oembed?url=u'',
                      SearchRequest ''token'' ''Song Artist''],
              fs = []\<rparr>)"
proof -
  let ?w = "world_of title_song_artist (HTTPSuccess hits_zero) (HTTPSuccess song_example)
                 (PageFailure ''404'')"
  have tok: "GENIUS_ACCESS_TOKEN ?w \<noteq> []" "GENIUS_ACCESS_TOKEN ?w \<noteq> token_placeholder"
    by (simp_all add: world_of_token)
  have lm: "fst (link_metadata ?w args_spotify io0) = Inr (''Song'', ''Artist'')" "''Song'' \<noteq> []"
    by (simp_all add: link_metadata_example)
  have found: "search_api ?w (GENIUS_ACCESS_TOKEN ?w) (strip (''Song'' @ '' '' @ ''Artist''))
                 = HTTPSuccess hits_zero"
    by (simp add: world_of_def)
  have ne: "hits_zero \<noteq> []" by (simp add: hits_zero_def)
  have falsy: "\<not> id_truthy (select_hit ''Artist'' hits_zero)" by code_simp
  have final: "write_stderr (''[ERROR] No matching song found on Genius.'' @ nl)
                 (send (SearchRequest (GENIUS_ACCESS_TOKEN ?w) (strip (''Song'' @ '' '' @ ''Artist'')))
                    (snd (link_metadata ?w args_spotify io0)))
       = \<lparr>stdout = [],
              stderr = [''[ERROR] No matching song found on Genius.'' @ nl],
              sent = [OembedRequest ''https://open.spotify.com/oembed?url=u'',
                      SearchRequest ''token'' ''Song Artist''],
              fs = []\<rparr>"
    by code_simp
  note th = falsy_identifier_is_no_match [OF tok lm found ne falsy]
  from th [THEN conjunct1] th [THEN conjunct2, THEN conjunct1] show ?thesis
    by (simp only: final)
qed




lemma main_to_output:
  assumes tok: "GENIUS_ACCESS_TOKEN w \<noteq> []" "GENIUS_ACCESS_TOKEN w \<noteq> token_placeholder"
    and lm: "fst (link_metadata w a io0) = Inr (track, artist)" "track \<noteq> []"
    and found: "search_api w (GENIUS_ACCESS_TOKEN w) (strip (track @ '' '' @ artist))
                  = HTTPSuccess hits"
    and sel: "select_hit artist hits = Some i" "i \<noteq> 0"
    and fetched: "song_api w (GENIUS_ACCESS_TOKEN w) i = HTTPSuccess song"
  shows "main w a io0 =
     (case (if lyrics a \<or> \<not> data a
            then scrape_or_warn w song
                   (send (SongRequest (GENIUS_ACCESS_TOKEN w) i)
                      (send (SearchRequest (GENIUS_ACCESS_TOKEN w) (strip (track @ '' '' @ artist)))
                         (snd (link_metadata w a io0))))
            else (Inr [], send (SongRequest (GENIUS_ACCESS_TOKEN w) i)
                      (send (SearchRequest (GENIUS_ACCESS_TOKEN w) (strip (track @ '' '' @ artist)))
                         (snd (link_metadata w a io0))))) of
           (Inl e, s4) \<Rightarrow> (Inl e, s4)
         | (Inr lyrics_text, s4) \<Rightarrow>
     (case compose_output a song lyrics_text of
        Inl e \<Rightarrow> (Inl e, s4)
      | Inr out \<Rightarrow>
          emit (files w) a out (dict_get song ''title'' (JStr ''unknown_title'')) s4))"
  using found sel fetched
  by (simp add: main_to_search [OF tok lm] search_genius_def get_genius_song_def
        id_truthy_def Let_def)






section \<open>Lyrics extractor: properties\<close>

lemma find_append:
  "List.find P (xs @ ys) = (case List.find P xs of Some x \<Rightarrow> Some x | None \<Rightarrow> List.find P ys)"
  by (induction xs) auto

lemma all_nodes_simps [simp]:
  "all_nodes [] = []"
  "all_nodes (Text t # ns) = Text t # all_nodes ns"
  "all_nodes (Comment t # ns) = Comment t # all_nodes ns"
  "all_nodes (Element i tag attrs cs # ns) = Element i tag attrs cs # all_nodes cs @ all_nodes ns"
  by (simp_all add: all_nodes_def)

lemma all_nodes_append [simp]: "all_nodes (xs @ ys) = all_nodes xs @ all_nodes ys"
  by (simp add: all_nodes_def)

lemma descendants_all_nodes: "descendants (Element i tag attrs cs) = all_nodes cs"
  by (simp add: all_nodes_def)

lemma deref_simps [simp]:
  "deref j [] = None"
  "deref j (Text t # ns) = deref j ns"
  "deref j (Comment t # ns) = deref j ns"
  "deref j (Element i tag attrs cs # ns) =
     (if i = j then Some (Element i tag attrs cs)
      else case deref j cs of Some u \<Rightarrow> Some u | None \<Rightarrow> deref j ns)"
  unfolding deref_def all_nodes_def [symmetric]
  by (simp_all add: find_append split: option.splits)

lemma deref_append:
  "deref j (xs @ ys) = (case deref j xs of Some u \<Rightarrow> Some u | None \<Rightarrow> deref j ys)"
  unfolding deref_def all_nodes_def [symmetric]
  by (simp add: find_append split: option.splits)

lemma rem_simps [simp]:
  "rem e [] = []"
  "rem e (Text t # ns) = Text t # rem e ns"
  "rem e (Comment t # ns) = Comment t # rem e ns"
  "rem e (Element i tag attrs cs # ns) =
     (if i = e then rem e ns else Element i tag attrs (rem e cs) # rem e ns)"
  by (simp_all add: rem_def)

lemma remove_id_Element: "remove_id e (Element i tag attrs cs) = Element i tag attrs (rem e cs)"
  by (simp add: rem_def)

lemma ids_of_append [simp]: "ids_of (xs @ ys) = ids_of xs @ ids_of ys"
  by (induction xs rule: ids_of.induct) auto

lemma deref_None_iff: "deref j ns = None \<longleftrightarrow> j \<notin> set (ids_of ns)"
  by (induction ns rule: ids_of.induct) (auto split: option.splits)

lemma deref_Some_id: "deref j ns = Some u \<Longrightarrow> node_id u = Some j"
  by (induction ns rule: ids_of.induct) (auto split: option.splits if_splits)

lemma deref_Some_ids: "deref j ns = Some u \<Longrightarrow> set (ids_of [u]) \<subseteq> set (ids_of ns)"
  by (induction ns rule: ids_of.induct) (auto split: option.splits if_splits)

lemma rem_absent: "e \<notin> set (ids_of ns) \<Longrightarrow> rem e ns = ns"
  by (induction ns rule: ids_of.induct) auto

lemma remove_id_absent: "e \<notin> set (ids_of [u]) \<Longrightarrow> remove_id e u = u"
  by (cases u) (simp_all add: rem_def [symmetric] rem_absent)

lemma deref_distinct: "deref j ns = Some u \<Longrightarrow> distinct (ids_of ns) \<Longrightarrow> distinct (ids_of [u])"
  by (induction ns rule: ids_of.induct) (auto split: option.splits if_splits)

lemma ids_of_rem:
  "distinct (ids_of ns) \<Longrightarrow>
   distinct (ids_of (rem e ns))
   \<and> set (ids_of (rem e ns))
       = set (ids_of ns) - (case deref e ns of None \<Rightarrow> {} | Some n \<Rightarrow> set (ids_of [n]))"
proof (induction ns rule: ids_of.induct)
  case (4 i tag attrs cs ns)
  then have d: "distinct (ids_of cs)" "distinct (ids_of ns)" "i \<notin> set (ids_of cs)"
    "i \<notin> set (ids_of ns)" "set (ids_of cs) \<inter> set (ids_of ns) = {}"
    by auto
  from 4 d have ihc: "distinct (ids_of (rem e cs))"
    "set (ids_of (rem e cs))
       = set (ids_of cs) - (case deref e cs of None \<Rightarrow> {} | Some n \<Rightarrow> set (ids_of [n]))"
    by simp_all
  from 4 d have ihn: "distinct (ids_of (rem e ns))"
    "set (ids_of (rem e ns))
       = set (ids_of ns) - (case deref e ns of None \<Rightarrow> {} | Some n \<Rightarrow> set (ids_of [n]))"
    by simp_all
  show ?case
  proof (cases "i = e")
    case True
    with d have "rem e ns = ns" by (simp add: rem_absent)
    with True d show ?thesis by auto
  next
    case False
    show ?thesis
    proof (cases "deref e cs")
      case None
      then have "e \<notin> set (ids_of cs)" by (simp add: deref_None_iff)
      then have rc: "rem e cs = cs" by (rule rem_absent)
      have sub: "\<And>n. deref e ns = Some n \<Longrightarrow> set (ids_of [n]) \<subseteq> set (ids_of ns)"
        by (rule deref_Some_ids)
      from False None d ihn rc sub show ?thesis
        by (auto split: option.splits)
    next
      case (Some n)
      then have sub: "set (ids_of [n]) \<subseteq> set (ids_of cs)" by (rule deref_Some_ids)
      from Some have "e \<in> set (ids_of cs)" using deref_None_iff [of e cs] by auto
      with d have "e \<notin> set (ids_of ns)" by auto
      then have rn: "rem e ns = ns" by (rule rem_absent)
      from False Some d ihc rn sub show ?thesis
        by (auto split: option.splits)
    qed
  qed
qed simp_all

lemma deref_in_ids: "deref j ns = Some u \<Longrightarrow> j \<in> set (ids_of ns)"
  using deref_None_iff [of j ns] by auto

lemma deref_rem:
  "distinct (ids_of ns) \<Longrightarrow> j \<in> set (ids_of (rem e ns)) \<Longrightarrow>
   deref j (rem e ns) = map_option (remove_id e) (deref j ns)"
proof (induction ns rule: ids_of.induct)
  case (4 i tag attrs cs ns)
  then have d: "distinct (ids_of cs)" "distinct (ids_of ns)" "i \<notin> set (ids_of cs)"
    "i \<notin> set (ids_of ns)" "set (ids_of cs) \<inter> set (ids_of ns) = {}"
    by auto
  have subc: "set (ids_of (rem e cs)) \<subseteq> set (ids_of cs)"
    using ids_of_rem [OF d(1), of e] by auto
  have subn: "set (ids_of (rem e ns)) \<subseteq> set (ids_of ns)"
    using ids_of_rem [OF d(2), of e] by auto
  show ?case
  proof (cases "i = e")
    case True
    with d have rn: "rem e ns = ns" by (simp add: rem_absent)
    with True "4.prems" have j: "j \<in> set (ids_of ns)" by simp
    then obtain u where u: "deref j ns = Some u"
      using deref_None_iff [of j ns] by auto
    then have "set (ids_of [u]) \<subseteq> set (ids_of ns)" by (rule deref_Some_ids)
    with True d have "e \<notin> set (ids_of [u])" by auto
    then have "remove_id e u = u" by (rule remove_id_absent)
    moreover from j d have "j \<noteq> i" "deref j cs = None" by (auto simp: deref_None_iff)
    ultimately show ?thesis using True rn u by simp
  next
    case False
    show ?thesis
    proof (cases "j = i")
      case True
      with False show ?thesis by (simp add: rem_def)
    next
      case ji: False
      show ?thesis
      proof (cases "j \<in> set (ids_of (rem e cs))")
        case True
        with "4.IH"(1) d have ih: "deref j (rem e cs) = map_option (remove_id e) (deref j cs)"
          by simp
        from True subc have "j \<in> set (ids_of cs)" by auto
        then obtain u where "deref j cs = Some u" using deref_None_iff [of j cs] by auto
        with ih False ji show ?thesis by simp
      next
        case nc: False
        with "4.prems" False ji have jn: "j \<in> set (ids_of (rem e ns))" by simp
        with "4.IH"(2) d have ih: "deref j (rem e ns) = map_option (remove_id e) (deref j ns)"
          by simp
        from jn subn d have "j \<notin> set (ids_of cs)" by auto
        then have "deref j cs = None" by (simp add: deref_None_iff)
        moreover from nc have "deref j (rem e cs) = None" by (simp add: deref_None_iff)
        ultimately show ?thesis using ih False ji by simp
      qed
    qed
  qed
qed simp_all

lemma deref_Cons:
  "deref j (n # ns) = (case deref j [n] of Some u \<Rightarrow> Some u | None \<Rightarrow> deref j ns)"
  using deref_append [of j "[n]" ns] by simp

lemma deref_inside:
  "distinct (ids_of ns) \<Longrightarrow> deref e ns = Some n \<Longrightarrow> deref j [n] = Some u \<Longrightarrow>
   deref j ns = Some u"
proof (induction ns rule: ids_of.induct)
  case (4 i tag attrs cs ns)
  then have d: "distinct (ids_of cs)" "distinct (ids_of ns)" "i \<notin> set (ids_of cs)"
    "i \<notin> set (ids_of ns)" "set (ids_of cs) \<inter> set (ids_of ns) = {}"
    by auto
  from "4.prems"(3) have jn: "j \<in> set (ids_of [n])" by (rule deref_in_ids)
  show ?case
  proof (cases "i = e")
    case True
    with "4.prems" have "n = Element i tag attrs cs" by simp
    with "4.prems"(3) show ?thesis by (subst deref_Cons) simp
  next
    case False
    show ?thesis
    proof (cases "deref e cs")
      case None
      with False "4.prems" have en: "deref e ns = Some n" by simp
      then have "set (ids_of [n]) \<subseteq> set (ids_of ns)" by (rule deref_Some_ids)
      with jn d have "j \<noteq> i" "j \<notin> set (ids_of cs)" by auto
      then have "j \<noteq> i" "deref j cs = None" by (simp_all add: deref_None_iff)
      moreover from "4.IH"(2) d en "4.prems"(3) have "deref j ns = Some u" by simp
      ultimately show ?thesis by simp
    next
      case (Some m)
      with False "4.prems" have mn: "m = n" by simp
      with Some have "set (ids_of [n]) \<subseteq> set (ids_of cs)" by (auto dest: deref_Some_ids)
      with jn d have "j \<noteq> i" by auto
      moreover from "4.IH"(1) d Some mn "4.prems"(3) have "deref j cs = Some u" by simp
      ultimately show ?thesis by simp
    qed
  qed
qed simp_all

lemma remove_id_inside:
  assumes "distinct (ids_of [n])" "node_id n = Some e" "deref j [n] = Some u"
  shows "remove_id e u = u"
proof (cases n)
  case (Element i tag attrs cs)
  with assms have e: "i = e" "e \<notin> set (ids_of cs)" by auto
  show ?thesis
  proof (cases "j = e")
    case True
    with assms Element e have "u = n" by simp
    with Element e show ?thesis by (simp add: rem_def [symmetric] rem_absent)
  next
    case False
    with assms Element e have "deref j cs = Some u" by (simp split: option.splits)
    then have "set (ids_of [u]) \<subseteq> set (ids_of cs)" by (rule deref_Some_ids)
    with e have "e \<notin> set (ids_of [u])" by auto
    then show ?thesis by (rule remove_id_absent)
  qed
qed (use assms in simp_all)

text \<open>An element at the top is below nothing.\<close>

lemma remove_id_root:
  "distinct (ids_of ns) \<Longrightarrow> Some e \<in> set (map node_id ns) \<Longrightarrow> deref j ns = Some u \<Longrightarrow>
   remove_id e u = u"
proof (induction ns)
  case Nil
  then show ?case by simp
next
  case (Cons r ns)
  show ?case
  proof (cases r)
    case (Element i tag attrs cs)
    with Cons.prems have d: "distinct (ids_of cs)" "distinct (ids_of ns)" "i \<notin> set (ids_of cs)"
      "i \<notin> set (ids_of ns)" "set (ids_of cs) \<inter> set (ids_of ns) = {}"
      by auto
    have root_in: "\<And>k. Some k \<in> set (map node_id ns) \<Longrightarrow> k \<in> set (ids_of ns)"
    proof -
      fix k show "Some k \<in> set (map node_id ns) \<Longrightarrow> k \<in> set (ids_of ns)"
        by (induction ns rule: ids_of.induct) auto
    qed
    have ecs: "e \<notin> set (ids_of cs)"
    proof (cases "i = e")
      case True
      with d show ?thesis by simp
    next
      case False
      with Cons.prems(2) Element have "Some e \<in> set (map node_id ns)" by auto
      then have "e \<in> set (ids_of ns)" by (rule root_in)
      with d show ?thesis by auto
    qed
    show ?thesis
    proof (cases "j = i")
      case True
      with Cons.prems(3) Element have "u = Element i tag attrs cs" by simp
      with ecs show ?thesis by (simp add: rem_def [symmetric] rem_absent)
    next
      case ji: False
      show ?thesis
      proof (cases "deref j cs")
        case (Some v)
        with ji Cons.prems(3) Element have "v = u" by simp
        with Some have "set (ids_of [u]) \<subseteq> set (ids_of cs)" by (auto dest: deref_Some_ids)
        with ecs have "e \<notin> set (ids_of [u])" by auto
        then show ?thesis by (rule remove_id_absent)
      next
        case None
        with ji Cons.prems(3) Element have un: "deref j ns = Some u" by simp
        show ?thesis
        proof (cases "i = e")
          case True
          from un have "set (ids_of [u]) \<subseteq> set (ids_of ns)" by (rule deref_Some_ids)
          with True d have "e \<notin> set (ids_of [u])" by auto
          then show ?thesis by (rule remove_id_absent)
        next
          case False
          with Cons.prems(2) Element have "Some e \<in> set (map node_id ns)" by auto
          with Cons.IH d un show ?thesis by simp
        qed
      qed
    qed
  next
    case (Text t)
    with Cons show ?thesis by simp
  next
    case (Comment t)
    with Cons show ?thesis by simp
  qed
qed

lemma rem_no_root: "Some e \<notin> set (map node_id ns) \<Longrightarrow> rem e ns = map (remove_id e) ns"
proof -
  assume "Some e \<notin> set (map node_id ns)"
  then have "filter (\<lambda>c. node_id c \<noteq> Some e) ns = ns"
    by (induction ns) auto
  then show ?thesis by (simp add: rem_def)
qed

text \<open>
  Taking an element out changes what stands behind each reference in one way only: the
  element is no longer below it. No identity is lost, none occurs twice.
\<close>

lemma extract_element_deref:
  assumes "distinct (ids_of roots)"
  shows "deref j (extract_element e roots) = map_option (remove_id e) (deref j roots)"
proof (cases "deref e roots")
  case None
  then have e: "e \<notin> set (ids_of roots)" by (simp add: deref_None_iff)
  have "map_option (remove_id e) (deref j roots) = deref j roots"
  proof (cases "deref j roots")
    case (Some u)
    then have "set (ids_of [u]) \<subseteq> set (ids_of roots)" by (rule deref_Some_ids)
    with e have "remove_id e u = u" by (auto intro: remove_id_absent)
    with Some show ?thesis by simp
  qed simp
  with None show ?thesis by (simp add: extract_element_def)
next
  case (Some n)
  show ?thesis
  proof (cases "Some e \<in> set (map node_id roots)")
    case True
    have "map_option (remove_id e) (deref j roots) = deref j roots"
    proof (cases "deref j roots")
      case u: (Some u)
      from remove_id_root [OF assms True u] u show ?thesis by simp
    qed simp
    with Some True show ?thesis by (simp add: extract_element_def)
  next
    case False
    then have r: "map (remove_id e) roots = rem e roots" by (simp add: rem_no_root)
    from Some False have ex: "extract_element e roots = rem e roots @ [n]"
      by (simp add: extract_element_def r)
    from ids_of_rem [OF assms, of e] Some
    have ids: "set (ids_of (rem e roots)) = set (ids_of roots) - set (ids_of [n])" by simp
    from Some have sub: "set (ids_of [n]) \<subseteq> set (ids_of roots)" by (rule deref_Some_ids)
    show ?thesis
    proof (cases "j \<in> set (ids_of (rem e roots))")
      case True
      then have "deref j (rem e roots) = map_option (remove_id e) (deref j roots)"
        using assms by (simp add: deref_rem)
      moreover from True ids have "j \<in> set (ids_of roots)" by auto
      then obtain u where "deref j roots = Some u" using deref_None_iff [of j roots] by auto
      ultimately show ?thesis by (simp add: ex deref_append)
    next
      case nj: False
      then have none: "deref j (rem e roots) = None" by (simp add: deref_None_iff)
      show ?thesis
      proof (cases "deref j [n]")
        case None
        then have "j \<notin> set (ids_of [n])" by (simp add: deref_None_iff)
        with nj ids have "j \<notin> set (ids_of roots)" by auto
        then have "deref j roots = None" by (simp add: deref_None_iff)
        with none None show ?thesis by (simp add: ex deref_append)
      next
        case u: (Some u)
        from deref_inside [OF assms Some u] have ju: "deref j roots = Some u" .
        from Some assms have "distinct (ids_of [n])" by (rule deref_distinct)
        moreover from Some have "node_id n = Some e" by (rule deref_Some_id)
        ultimately have "remove_id e u = u" using u by (rule remove_id_inside)
        with none u ju show ?thesis by (simp add: ex deref_append)
      qed
    qed
  qed
qed

lemma extract_element_distinct:
  assumes "distinct (ids_of roots)"
  shows "distinct (ids_of (extract_element e roots))"
proof (cases "deref e roots")
  case None
  with assms show ?thesis by (simp add: extract_element_def)
next
  case (Some n)
  show ?thesis
  proof (cases "Some e \<in> set (map node_id roots)")
    case True
    with Some assms show ?thesis by (simp add: extract_element_def)
  next
    case False
    then have r: "map (remove_id e) roots = rem e roots" by (simp add: rem_no_root)
    from Some False have ex: "extract_element e roots = rem e roots @ [n]"
      by (simp add: extract_element_def r)
    from ids_of_rem [OF assms, of e] Some
    have "distinct (ids_of (rem e roots))"
      "set (ids_of (rem e roots)) = set (ids_of roots) - set (ids_of [n])" by simp_all
    moreover from Some assms have "distinct (ids_of [n])" by (rule deref_distinct)
    ultimately show ?thesis by (auto simp: ex)
  qed
qed

lemma remove_ids_empty [simp]: "remove_ids {} u = u"
  by (induction u) (auto simp: map_idI)

lemma remove_ids_remove_id: "remove_ids S (remove_id e u) = remove_ids (insert e S) u"
proof (induction u)
  case (Element i tag attrs cs)
  have "map (remove_ids S) (filter (\<lambda>c. node_id c \<notin> Some ` S)
          (map (remove_id e) (filter (\<lambda>c. node_id c \<noteq> Some e) cs)))
        = map (remove_ids (insert e S)) (filter (\<lambda>c. node_id c \<notin> Some ` insert e S) cs)"
    using Element
  proof (induction cs)
    case Nil
    then show ?case by simp
  next
    case (Cons c cs)
    have id: "node_id (remove_id e c) = node_id c" by (cases c) simp_all
    from Cons show ?case by (auto simp: id)
  qed
  then show ?case by simp
qed simp_all

text \<open>The inner loop: the excluded elements are taken out one after the other.\<close>

lemma fold_extract_element:
  "distinct (ids_of roots) \<Longrightarrow>
   distinct (ids_of (fold extract_element es roots))
   \<and> (\<forall>j. deref j (fold extract_element es roots)
            = map_option (remove_ids (set es)) (deref j roots))"
proof (induction es arbitrary: roots)
  case Nil
  then show ?case by (simp add: option.map_ident)
next
  case (Cons e es)
  from Cons.prems have d: "distinct (ids_of (extract_element e roots))"
    by (rule extract_element_distinct)
  from Cons.IH [OF d] Cons.prems show ?case
    by (simp add: extract_element_deref option.map_comp comp_def remove_ids_remove_id)
qed

lemma map_filter_append:
  "List.map_filter f (xs @ ys) = List.map_filter f xs @ List.map_filter f ys"
  by (simp add: List.map_filter_def)

lemma ids_of_all_nodes: "ids_of ns = List.map_filter node_id (all_nodes ns)"
  by (induction ns rule: ids_of.induct) (simp_all add: map_filter_simps map_filter_append)

lemma map_filter_distinct_inj:
  "distinct (List.map_filter f xs) \<Longrightarrow> x \<in> set xs \<Longrightarrow> y \<in> set xs \<Longrightarrow>
   f x = Some i \<Longrightarrow> f y = Some i \<Longrightarrow> x = y"
proof (induction xs)
  case Nil
  then show ?case by simp
next
  case (Cons z zs)
  have mem: "\<And>w. w \<in> set zs \<Longrightarrow> f w = Some i \<Longrightarrow> i \<in> set (List.map_filter f zs)"
    by (force simp: List.map_filter_def)
  from Cons show ?case
    by (cases "f z") (auto simp: map_filter_simps dest: mem)
qed

lemma same_id_same_node:
  "distinct (ids_of ns) \<Longrightarrow> x \<in> set (all_nodes ns) \<Longrightarrow> y \<in> set (all_nodes ns) \<Longrightarrow>
   node_id x = Some i \<Longrightarrow> node_id y = Some i \<Longrightarrow> x = y"
  unfolding ids_of_all_nodes by (rule map_filter_distinct_inj)

lemma descendants_in_all_nodes:
  "u \<in> set (all_nodes ns) \<Longrightarrow> set (descendants u) \<subseteq> set (all_nodes ns)"
proof (induction ns rule: ids_of.induct)
  case (4 i tag attrs cs ns)
  from "4.prems" consider "u = Element i tag attrs cs" | "u \<in> set (all_nodes cs)"
    | "u \<in> set (all_nodes ns)" by auto
  then show ?case
  proof cases
    case 1
    then have "descendants u = all_nodes cs" by (simp only: descendants_all_nodes)
    then show ?thesis by auto
  next
    case 2
    with "4.IH"(1) show ?thesis by auto
  next
    case 3
    with "4.IH"(2) show ?thesis by auto
  qed
qed auto

lemma deref_in_all_nodes: "deref j ns = Some u \<Longrightarrow> u \<in> set (all_nodes ns)"
  unfolding deref_def all_nodes_def [symmetric]
  by (auto simp: find_Some_iff)

lemma child_descendants:
  "c \<in> set cs \<Longrightarrow>
   c \<in> set (descendants (Element i tag attrs cs))
   \<and> set (descendants c) \<subseteq> set (descendants (Element i tag attrs cs))"
  by auto

lemma is_excluded_remove_ids [simp]: "is_excluded (remove_ids S c) = is_excluded c"
  by (cases c) (simp_all add: is_excluded_def)

lemma node_id_remove_ids [simp]: "node_id (remove_ids S c) = node_id c"
  by (cases c) simp_all

lemma map_filter_cong2:
  "(\<And>x. x \<in> set xs \<Longrightarrow> P x = Q x) \<Longrightarrow> (\<And>x. x \<in> set xs \<Longrightarrow> Q x \<Longrightarrow> f x = g x) \<Longrightarrow>
   map f (filter P xs) = map g (filter Q xs)"
  by (induction xs) auto

text \<open>
  Without the elements of \<open>S\<close> a node is the pruned node, when \<open>S\<close> holds just the
  excluded elements below it.
\<close>

lemma remove_ids_prune:
  "(\<And>d. d \<in> set (descendants u) \<Longrightarrow> (node_id d \<in> Some ` S) = is_excluded d) \<Longrightarrow>
   remove_ids S u = prune u"
proof (induction u)
  case (Element i tag attrs cs)
  have "map (remove_ids S) (filter (\<lambda>c. node_id c \<notin> Some ` S) cs)
          = map prune (filter (\<lambda>c. \<not> is_excluded c) cs)"
  proof (rule map_filter_cong2)
    fix c assume c: "c \<in> set cs"
    then have "c \<in> set (descendants (Element i tag attrs cs))"
      using child_descendants by blast
    then show "(node_id c \<notin> Some ` S) = (\<not> is_excluded c)"
      using Element.prems by blast
  next
    fix c assume c: "c \<in> set cs"
    then have sub: "set (descendants c) \<subseteq> set (descendants (Element i tag attrs cs))"
      using child_descendants by blast
    show "remove_ids S c = prune c"
    proof (rule Element.IH [OF c])
      fix d assume "d \<in> set (descendants c)"
      with sub have "d \<in> set (descendants (Element i tag attrs cs))" by blast
      then show "(node_id d \<in> Some ` S) = is_excluded d" by (rule Element.prems)
    qed
  qed
  then show ?case by simp
qed simp_all

lemma prune_remove_ids:
  "(\<And>d. d \<in> set (descendants u) \<Longrightarrow> node_id d \<in> Some ` S \<Longrightarrow> is_excluded d) \<Longrightarrow>
   prune (remove_ids S u) = prune u"
proof (induction u)
  case (Element i tag attrs cs)
  have "map prune (filter (\<lambda>c. \<not> is_excluded c)
          (map (remove_ids S) (filter (\<lambda>c. node_id c \<notin> Some ` S) cs)))
        = map (\<lambda>c. prune (remove_ids S c))
            (filter (\<lambda>c. node_id c \<notin> Some ` S \<and> \<not> is_excluded c) cs)"
    by (induction cs) auto
  also have "\<dots> = map prune (filter (\<lambda>c. \<not> is_excluded c) cs)"
  proof (rule map_filter_cong2)
    fix c assume c: "c \<in> set cs"
    then have "c \<in> set (descendants (Element i tag attrs cs))"
      using child_descendants by blast
    then show "(node_id c \<notin> Some ` S \<and> \<not> is_excluded c) = (\<not> is_excluded c)"
      using Element.prems by blast
  next
    fix c assume c: "c \<in> set cs"
    then have sub: "set (descendants c) \<subseteq> set (descendants (Element i tag attrs cs))"
      using child_descendants by blast
    show "prune (remove_ids S c) = prune c"
    proof (rule Element.IH [OF c])
      fix d assume "d \<in> set (descendants c)" "node_id d \<in> Some ` S"
      with sub show "is_excluded d" using Element.prems by blast
    qed
  qed
  finally show ?case by simp
qed simp_all

lemma find_all_iff:
  "i \<in> set (find_all P n) \<longleftrightarrow> (\<exists>d \<in> set (descendants n). P d \<and> node_id d = Some i)"
  by (force simp: find_all_def List.map_filter_def)

lemma is_excluded_id: "is_excluded d \<Longrightarrow> \<exists>i. node_id d = Some i"
  by (cases d) (simp_all add: is_excluded_def)

lemma is_lyrics_container_id: "is_lyrics_container d \<Longrightarrow> \<exists>i. node_id d = Some i"
  by (cases d) (simp_all add: is_lyrics_container_def)

lemma deref_of_node:
  assumes "distinct (ids_of ns)" "d \<in> set (all_nodes ns)" "node_id d = Some i"
  shows "deref i ns = Some d"
proof -
  from assms(2,3) have "i \<in> set (ids_of ns)"
    by (force simp: ids_of_all_nodes List.map_filter_def)
  then obtain u where u: "deref i ns = Some u" using deref_None_iff [of i ns] by auto
  then have "u \<in> set (all_nodes ns)" "node_id u = Some i"
    by (auto dest: deref_in_all_nodes deref_Some_id)
  with assms have "u = d" by (auto dest: same_id_same_node)
  with u show ?thesis by simp
qed

text \<open>
  One round of the outer loop, on live objects without a repeated identity: the container
  ends up pruned, its text is the text of the pruned container, and behind every other
  reference stands a node that prunes to what it pruned to before.
\<close>

lemma scrape_container_step:
  assumes dist: "distinct (ids_of roots)" and c: "deref c roots = Some t"
  shows "\<exists>roots'. scrape_container c (roots, lyrics_lines)
           = (roots', lyrics_lines @ filter (\<lambda>text. text \<noteq> []) [strip (get_text nl (prune t))])
         \<and> distinct (ids_of roots')
         \<and> (\<forall>j u. deref j roots = Some u
                \<longrightarrow> (\<exists>u'. deref j roots' = Some u' \<and> prune u' = prune u))"
proof -
  define es where "es = find_all is_excluded t"
  define roots' where "roots' = fold extract_element es roots"
  from fold_extract_element [OF dist, of es]
  have d': "distinct (ids_of roots')"
    and deref': "\<And>j. deref j roots' = map_option (remove_ids (set es)) (deref j roots)"
    by (simp_all add: roots'_def)
  have t_in: "t \<in> set (all_nodes roots)" using c by (rule deref_in_all_nodes)
  then have t_sub: "set (descendants t) \<subseteq> set (all_nodes roots)"
    by (rule descendants_in_all_nodes)
  have S_excl: "is_excluded d"
    if "d \<in> set (all_nodes roots)" "node_id d \<in> Some ` set es" for d
  proof -
    from that(2) obtain i where i: "node_id d = Some i" "i \<in> set es" by auto
    then obtain d' where d': "d' \<in> set (descendants t)" "is_excluded d'" "node_id d' = Some i"
      by (auto simp: es_def find_all_iff)
    with t_sub have "d' \<in> set (all_nodes roots)" by auto
    with dist that(1) i(1) d'(3) have "d = d'" by (auto dest: same_id_same_node)
    with d'(2) show ?thesis by simp
  qed
  have "remove_ids (set es) t = prune t"
  proof (rule remove_ids_prune)
    fix d assume d: "d \<in> set (descendants t)"
    show "(node_id d \<in> Some ` set es) = is_excluded d"
    proof
      assume "node_id d \<in> Some ` set es"
      with d t_sub show "is_excluded d" by (auto intro: S_excl)
    next
      assume e: "is_excluded d"
      then obtain i where "node_id d = Some i" by (auto dest: is_excluded_id)
      with d e have "i \<in> set es" unfolding es_def find_all_iff by blast
      with \<open>node_id d = Some i\<close> show "node_id d \<in> Some ` set es" by simp
    qed
  qed
  with c deref' have c': "deref c roots' = Some (prune t)" by simp
  have others: "\<exists>u'. deref j roots' = Some u' \<and> prune u' = prune u"
    if u: "deref j roots = Some u" for j u
  proof -
    from u have "u \<in> set (all_nodes roots)" by (rule deref_in_all_nodes)
    then have sub: "set (descendants u) \<subseteq> set (all_nodes roots)"
      by (rule descendants_in_all_nodes)
    have "prune (remove_ids (set es) u) = prune u"
    proof (rule prune_remove_ids)
      fix d assume "d \<in> set (descendants u)" "node_id d \<in> Some ` set es"
      with sub show "is_excluded d" by (auto intro: S_excl)
    qed
    with u deref' show ?thesis by simp
  qed
  have "scrape_container c (roots, lyrics_lines)
          = (roots', lyrics_lines @ filter (\<lambda>text. text \<noteq> []) [strip (get_text nl (prune t))])"
    using c c' by (simp add: scrape_container_def Let_def es_def roots'_def)
  with d' others show ?thesis by blast
qed

text \<open>The outer loop, over containers that all stand behind their references.\<close>

lemma fold_scrape_container:
  "distinct (ids_of roots) \<Longrightarrow>
   (\<And>d. d \<in> set ds \<Longrightarrow>
      \<exists>i t. node_id d = Some i \<and> deref i roots = Some t \<and> prune t = prune d) \<Longrightarrow>
   snd (fold scrape_container (List.map_filter node_id ds) (roots, lyrics_lines))
     = lyrics_lines @ filter (\<lambda>text. text \<noteq> []) (map container_text ds)"
proof (induction ds arbitrary: roots lyrics_lines)
  case Nil
  then show ?case by (simp add: map_filter_simps)
next
  case (Cons d ds)
  from Cons.prems(2) [of d] obtain i t where
    d: "node_id d = Some i" "deref i roots = Some t" "prune t = prune d" by auto
  from scrape_container_step [OF Cons.prems(1) d(2), of lyrics_lines] d(3)
  obtain roots' where
    step: "scrape_container i (roots, lyrics_lines)
             = (roots', lyrics_lines @ filter (\<lambda>text. text \<noteq> []) [container_text d])"
    and d': "distinct (ids_of roots')"
    and keep: "\<And>j u. deref j roots = Some u
                 \<Longrightarrow> \<exists>u'. deref j roots' = Some u' \<and> prune u' = prune u"
    by (auto simp: container_text_def)
  have inv: "\<exists>i t. node_id x = Some i \<and> deref i roots' = Some t \<and> prune t = prune x"
    if "x \<in> set ds" for x
  proof -
    from that Cons.prems(2) [of x] obtain k u where
      "node_id x = Some k" "deref k roots = Some u" "prune u = prune x" by auto
    with keep [of k u] show ?thesis by auto
  qed
  from Cons.IH [OF d' inv] d(1) step show ?case
    by (simp add: map_filter_simps)
qed

text \<open>
  Claim C3. On a fetched page whose elements are distinct objects, what the extractor
  returns is the text of the page taken container by container: from every lyric container,
  in document order, every element below it that carries the exclusion marker is removed;
  the text nodes that remain are joined with line breaks and the result is trimmed; the
  containers whose trimmed text is empty are dropped; the other texts are joined with one
  line break. The extractor takes the excluded elements out of the page while it runs, and
  containers may lie inside one another or inside an excluded element; the result is the
  same as on the unchanged page.
\<close>

theorem lyrics_extraction:
  assumes "get_page url = Page soup" "distinct (ids_of [soup])"
  shows "fst (scrape_genius_lyrics get_page url s) = Inr (lyrics_by_container soup)
       \<and> page_lyrics soup
           = join nl (filter (\<lambda>text. text \<noteq> [])
               (map (\<lambda>c. strip (get_text nl (prune c)))
                  (filter is_lyrics_container (descendants soup))))"
proof -
  let ?ds = "filter is_lyrics_container (descendants soup)"
  have start: "\<exists>i t. node_id d = Some i \<and> deref i [soup] = Some t \<and> prune t = prune d"
    if "d \<in> set ?ds" for d
  proof -
    from that have "is_lyrics_container d" "d \<in> set (descendants soup)" by auto
    then obtain i where i: "node_id d = Some i" by (auto dest: is_lyrics_container_id)
    from \<open>d \<in> set (descendants soup)\<close> have "d \<in> set (all_nodes [soup])"
      by (simp add: all_nodes_def)
    with assms(2) i have "deref i [soup] = Some d" by (auto intro: deref_of_node)
    with i show ?thesis by auto
  qed
  from fold_scrape_container [OF assms(2) start, of ?ds "[]"]
  have "snd (fold scrape_container (find_all is_lyrics_container soup) ([soup], []))
          = filter (\<lambda>text. text \<noteq> []) (map container_text ?ds)"
    by (simp add: find_all_def)
  then have pl: "page_lyrics soup = lyrics_by_container soup"
    by (auto simp: page_lyrics_def lyrics_by_container_def Let_def split: prod.splits)
  have ct: "container_text = (\<lambda>c. strip (get_text nl (prune c)))"
    by (rule ext) (simp add: container_text_def)
  from assms(1) pl show ?thesis
    by (simp add: scrape_genius_lyrics_def Let_def lyrics_by_container_def ct)
qed

text \<open>A pruned node has no excluded element below it.\<close>

lemma prune_no_excluded: "d \<in> set (descendants (prune u)) \<Longrightarrow> \<not> is_excluded d"
proof (induction u arbitrary: d)
  case (Element i tag attrs cs)
  from Element.prems obtain c where c: "c \<in> set cs" "\<not> is_excluded c"
    "d = prune c \<or> d \<in> set (descendants (prune c))"
    by auto
  have "is_excluded (prune c) = is_excluded c" by (cases c) (simp_all add: is_excluded_def)
  with c Element.IH [of c d] show ?case by auto
qed simp_all

text \<open>
  The example page: the insertion and the whitespace leave no trace in the first and third
  container; the container inside the insertion is a container of the page and gives its
  own text.
\<close>

theorem lyrics_extraction_witness:
  "fst (scrape_genius_lyrics (page_const (Page page_example)) (JStr ''https://genius.com/song'') io0)
     = Inr (''Verse'' @ nl @ ''line2'' @ nl @ ''inner'' @ nl @ ''Chorus'')"
proof -
  have p: "page_const (Page page_example) (JStr ''https://genius.com/song'') = Page page_example"
    by (simp add: page_const_def)
  have d: "distinct (ids_of [page_example])"
    by code_simp
  have v: "lyrics_by_container page_example
             = ''Verse'' @ nl @ ''line2'' @ nl @ ''inner'' @ nl @ ''Chorus''"
    by code_simp
  from lyrics_extraction [of "page_const (Page page_example)" "JStr ''https://genius.com/song''"
      page_example io0, OF p d, THEN conjunct1]
  show ?thesis by (simp only: v)
qed

section \<open>Structured values: serialising and parsing again\<close>

lemma of_char_digit_char: "d < 10 \<Longrightarrow> (of_char (digit_char d) :: nat) = 48 + d"
  by (simp add: digit_char_def)

lemma isdigit_digit_char: "d < 10 \<Longrightarrow> isdigit (digit_char d)"
  by (simp add: isdigit_def in_range_def of_char_digit_char)

lemma digit_val_digit_char: "d < 10 \<Longrightarrow> digit_val (digit_char d) = d"
  by (simp add: digit_val_def of_char_digit_char)

lemma digit_char_zero_iff: "d < 10 \<Longrightarrow> digit_char d = CHR ''0'' \<longleftrightarrow> d = 0"
proof -
  assume d: "d < 10"
  have "digit_char d = CHR ''0'' \<longleftrightarrow> (of_char (digit_char d) :: nat) = of_char CHR ''0''"
    by (metis of_char_eq_iff)
  with d show ?thesis by (simp add: of_char_digit_char)
qed

lemma str_nat_not_Nil [simp]: "str_nat n \<noteq> []"
  by (subst str_nat.simps) simp

lemma str_nat_digits: "c \<in> set (str_nat n) \<Longrightarrow> isdigit c"
proof (induction n arbitrary: c rule: str_nat.induct)
  case (1 n)
  show ?case
  proof (cases "n < 10")
    case True
    with "1.prems" show ?thesis
      by (subst (asm) str_nat.simps) (simp add: isdigit_digit_char)
  next
    case False
    with "1.prems" "1.IH" show ?thesis
      by (subst (asm) str_nat.simps) (auto simp: isdigit_digit_char)
  qed
qed

lemma nat_of_digits_snoc: "nat_of_digits (ds @ [c]) = 10 * nat_of_digits ds + digit_val c"
  by (simp add: nat_of_digits_def)

lemma nat_of_digits_str_nat: "nat_of_digits (str_nat n) = n"
proof (induction n rule: str_nat.induct)
  case (1 n)
  show ?case
  proof (cases "n < 10")
    case True
    then show ?thesis
      by (subst str_nat.simps) (simp add: nat_of_digits_def digit_val_digit_char)
  next
    case False
    with "1.IH" show ?thesis
      by (subst str_nat.simps) (simp add: nat_of_digits_snoc digit_val_digit_char)
  qed
qed

lemma hd_str_nat_zero: "hd (str_nat n) = CHR ''0'' \<longleftrightarrow> n = 0"
proof (induction n rule: str_nat.induct)
  case (1 n)
  show ?case
  proof (cases "n < 10")
    case True
    then show ?thesis
      by (subst str_nat.simps) (simp add: digit_char_zero_iff)
  next
    case False
    then have "n div 10 \<noteq> 0" by simp
    with False "1.IH" show ?thesis
      by (subst str_nat.simps) simp
  qed
qed

lemma digit_char_0: "digit_char 0 = CHR ''0''"
  by code_simp

lemma str_nat_zero: "str_nat 0 = ''0''"
  by (subst str_nat.simps) (simp add: digit_char_0)

lemma takeWhile_all_append:
  "(\<And>c. c \<in> set xs \<Longrightarrow> P c) \<Longrightarrow> ys = [] \<or> \<not> P (hd ys) \<Longrightarrow> takeWhile P (xs @ ys) = xs"
  by (cases ys) (auto simp: takeWhile_append)

lemma isdigit_not_minus: "isdigit c \<Longrightarrow> c \<noteq> CHR ''-''"
  by (auto simp: isdigit_def in_range_def)

lemma value_end_not_digit: "value_end rest \<Longrightarrow> rest = [] \<or> \<not> isdigit (hd rest)"
  by (auto simp: value_end_def isdigit_def in_range_def)

lemma value_end_not_float: "value_end rest \<Longrightarrow> rest \<noteq> [] \<Longrightarrow> hd rest \<notin> set ''.eE''"
  by (auto simp: value_end_def)

lemma parse_number_str_nat:
  assumes "value_end rest"
  shows "(let ds = (if str_nat m @ rest \<noteq> [] \<and> hd (str_nat m @ rest) = CHR ''0'' then ''0''
                    else takeWhile isdigit (str_nat m @ rest))
          in ds = str_nat m)"
proof (cases "m = 0")
  case True
  then show ?thesis by (simp add: str_nat_zero)
next
  case False
  then have "hd (str_nat m) \<noteq> CHR ''0''" by (simp add: hd_str_nat_zero)
  then have "hd (str_nat m @ rest) \<noteq> CHR ''0''" by simp
  moreover have "takeWhile isdigit (str_nat m @ rest) = str_nat m"
    using assms by (intro takeWhile_all_append) (auto dest: str_nat_digits value_end_not_digit)
  ultimately show ?thesis by simp
qed

lemma parse_number_str_int:
  assumes "value_end rest"
  shows "parse_number (str_int i @ rest) = Some (JInt i, rest)"
proof (cases "i < 0")
  case True
  define m where "m = nat (- i)"
  from True have s: "str_int i @ rest = CHR ''-'' # (str_nat m @ rest)"
    by (simp add: str_int_def m_def)
  from parse_number_str_nat [OF assms, of m]
  have ds: "(if str_nat m @ rest \<noteq> [] \<and> hd (str_nat m @ rest) = CHR ''0'' then ''0''
             else takeWhile isdigit (str_nat m @ rest)) = str_nat m"
    by (simp add: Let_def)
  from True have "- int m = i" by (simp add: m_def)
  with assms show ?thesis
    unfolding s parse_number_def Let_def
    by (simp only: ds list.sel list.distinct simp_thms if_True nat_of_digits_str_nat)
       (auto simp: value_end_def)
next
  case False
  define m where "m = nat i"
  from False have s: "str_int i @ rest = str_nat m @ rest"
    by (simp add: str_int_def m_def)
  have "hd (str_nat m) \<in> set (str_nat m)" by simp
  then have "isdigit (hd (str_nat m))" by (rule str_nat_digits)
  then have nm: "hd (str_nat m @ rest) \<noteq> CHR ''-''"
    by (simp add: isdigit_not_minus)
  from parse_number_str_nat [OF assms, of m]
  have ds: "(if str_nat m @ rest \<noteq> [] \<and> hd (str_nat m @ rest) = CHR ''0'' then ''0''
             else takeWhile isdigit (str_nat m @ rest)) = str_nat m"
    by (simp add: Let_def)
  from False have "int m = i" by (simp add: m_def)
  with assms nm show ?thesis
    unfolding s parse_number_def Let_def
    by (simp only: ds simp_thms if_False nat_of_digits_str_nat)
       (auto simp: value_end_def)
qed

lemma of_char_hex_digit:
  "d < 16 \<Longrightarrow> (of_char (hex_digit d) :: nat) = (if d < 10 then 48 + d else 87 + d)"
  by (simp add: hex_digit_def)

lemma hex_val_hex_digit: "d < 16 \<Longrightarrow> hex_val (hex_digit d) = Some d"
  by (cases "d < 10") (simp_all add: hex_val_def in_range_def of_char_hex_digit)

lemma hex_val_0: "hex_val CHR ''0'' = Some 0"
  by (simp add: hex_val_def in_range_def)

lemma of_char_lt_256: "(of_char (c::char) :: nat) < 256"
proof -
  have "(of_char c :: nat) = of_char (char_of (of_char c :: nat))" by simp
  also have "\<dots> = (of_char c :: nat) mod 256" by (simp only: of_char_of)
  finally have "(of_char c :: nat) = of_char c mod 256" .
  then show ?thesis by (metis mod_less_divisor zero_less_numeral)
qed

lemma hex4_hex2: "hex4 (take 4 (''00'' @ hex2 c @ tail)) = Some (of_char c)"
proof -
  have d: "(of_char c :: nat) div 16 < 16" "(of_char c :: nat) mod 16 < 16"
    using of_char_lt_256 [of c] by presburger+
  then show ?thesis
    by (simp add: hex4_def hex2_def hex_val_0 hex_val_hex_digit)
qed

lemma scanstring_escape:
  "e \<noteq> CHR ''u'' \<Longrightarrow> unescape e = Some x \<Longrightarrow>
   scanstring (Suc n) (CHR 0x5C # e # tail)
     = (case scanstring n tail of None \<Rightarrow> None | Some (t, r) \<Rightarrow> Some (x # t, r))"
  by simp

lemma scanstring_unicode:
  "hex4 (take 4 body) = Some v \<Longrightarrow> v < 256 \<Longrightarrow>
   scanstring (Suc n) (CHR 0x5C # CHR ''u'' # body)
     = (case scanstring n (drop 4 body) of
          None \<Rightarrow> None
        | Some (t, r) \<Rightarrow> Some (char_of v # t, r))"
  by simp

lemma scanstring_plain:
  "c \<noteq> CHR 0x22 \<Longrightarrow> c \<noteq> CHR 0x5C \<Longrightarrow> \<not> in_range 0 0x1F c \<Longrightarrow>
   scanstring (Suc n) (c # tail)
     = (case scanstring n tail of None \<Rightarrow> None | Some (t, r) \<Rightarrow> Some (c # t, r))"
  by simp

lemma dumps_char_named:
  "dumps_char (CHR 0x22) = [CHR 0x5C, CHR 0x22]" "dumps_char (CHR 0x5C) = [CHR 0x5C, CHR 0x5C]"
  "dumps_char (CHR 0x0A) = [CHR 0x5C, CHR ''n'']" "dumps_char (CHR 0x0D) = [CHR 0x5C, CHR ''r'']"
  "dumps_char (CHR 0x09) = [CHR 0x5C, CHR ''t'']" "dumps_char (CHR 0x08) = [CHR 0x5C, CHR ''b'']"
  "dumps_char (CHR 0x0C) = [CHR 0x5C, CHR ''f'']"
  by code_simp+

lemma unescape_named:
  "unescape (CHR 0x22) = Some (CHR 0x22)" "unescape (CHR 0x5C) = Some (CHR 0x5C)"
  "unescape (CHR ''n'') = Some (CHR 0x0A)" "unescape (CHR ''r'') = Some (CHR 0x0D)"
  "unescape (CHR ''t'') = Some (CHR 0x09)" "unescape (CHR ''b'') = Some (CHR 0x08)"
  "unescape (CHR ''f'') = Some (CHR 0x0C)"
  by code_simp+

lemma named_in_range:
  "in_range 0 0x1F (CHR 0x0A)" "in_range 0 0x1F (CHR 0x0D)" "in_range 0 0x1F (CHR 0x09)"
  "in_range 0 0x1F (CHR 0x08)" "in_range 0 0x1F (CHR 0x0C)"
  "\<not> in_range 0 0x1F (CHR 0x22)" "\<not> in_range 0 0x1F (CHR 0x5C)"
  by code_simp+

lemma dumps_char_control:
  assumes "c \<noteq> CHR 0x0A" "c \<noteq> CHR 0x0D" "c \<noteq> CHR 0x09" "c \<noteq> CHR 0x08" "c \<noteq> CHR 0x0C"
    "in_range 0 0x1F c"
  shows "dumps_char c = CHR 0x5C # CHR ''u'' # ''00'' @ hex2 c"
proof -
  from assms(6) named_in_range(6,7) have "c \<noteq> CHR 0x22" "c \<noteq> CHR 0x5C" by auto
  with assms show ?thesis unfolding dumps_char_def by simp
qed

lemma dumps_char_plain:
  assumes "c \<noteq> CHR 0x22" "c \<noteq> CHR 0x5C" "\<not> in_range 0 0x1F c"
  shows "dumps_char c = [c]"
proof -
  from assms(3) named_in_range(1-5)
  have "c \<noteq> CHR 0x0A" "c \<noteq> CHR 0x0D" "c \<noteq> CHR 0x09" "c \<noteq> CHR 0x08" "c \<noteq> CHR 0x0C"
    by auto
  with assms show ?thesis unfolding dumps_char_def by simp
qed

lemma dumps_char_cases:
  "(\<exists>e. dumps_char c = [CHR 0x5C, e] \<and> e \<noteq> CHR ''u'' \<and> unescape e = Some c)
   \<or> (dumps_char c = CHR 0x5C # CHR ''u'' # ''00'' @ hex2 c)
   \<or> (dumps_char c = [c] \<and> c \<noteq> CHR 0x22 \<and> c \<noteq> CHR 0x5C \<and> \<not> in_range 0 0x1F c)"
proof -
  consider (quote) "c = CHR 0x22" | (bs) "c = CHR 0x5C" | (n) "c = CHR 0x0A" | (r) "c = CHR 0x0D"
    | (t) "c = CHR 0x09" | (b) "c = CHR 0x08" | (f) "c = CHR 0x0C"
    | (ctl) "c \<noteq> CHR 0x0A" "c \<noteq> CHR 0x0D" "c \<noteq> CHR 0x09" "c \<noteq> CHR 0x08" "c \<noteq> CHR 0x0C"
        "in_range 0 0x1F c"
    | (plain) "c \<noteq> CHR 0x22" "c \<noteq> CHR 0x5C" "\<not> in_range 0 0x1F c"
    by blast
  then show ?thesis
  proof cases
    case quote
    have "dumps_char c = [CHR 0x5C, CHR 0x22] \<and> CHR 0x22 \<noteq> CHR ''u''
            \<and> unescape (CHR 0x22) = Some c"
      unfolding quote by (simp only: dumps_char_named unescape_named) simp
    then show ?thesis by blast
  next
    case bs
    have "dumps_char c = [CHR 0x5C, CHR 0x5C] \<and> CHR 0x5C \<noteq> CHR ''u''
            \<and> unescape (CHR 0x5C) = Some c"
      unfolding bs by (simp only: dumps_char_named unescape_named) simp
    then show ?thesis by blast
  next
    case n
    have "dumps_char c = [CHR 0x5C, CHR ''n''] \<and> CHR ''n'' \<noteq> CHR ''u''
            \<and> unescape (CHR ''n'') = Some c"
      unfolding n by (simp only: dumps_char_named unescape_named) simp
    then show ?thesis by blast
  next
    case r
    have "dumps_char c = [CHR 0x5C, CHR ''r''] \<and> CHR ''r'' \<noteq> CHR ''u''
            \<and> unescape (CHR ''r'') = Some c"
      unfolding r by (simp only: dumps_char_named unescape_named) simp
    then show ?thesis by blast
  next
    case t
    have "dumps_char c = [CHR 0x5C, CHR ''t''] \<and> CHR ''t'' \<noteq> CHR ''u''
            \<and> unescape (CHR ''t'') = Some c"
      unfolding t by (simp only: dumps_char_named unescape_named) simp
    then show ?thesis by blast
  next
    case b
    have "dumps_char c = [CHR 0x5C, CHR ''b''] \<and> CHR ''b'' \<noteq> CHR ''u''
            \<and> unescape (CHR ''b'') = Some c"
      unfolding b by (simp only: dumps_char_named unescape_named) simp
    then show ?thesis by blast
  next
    case f
    have "dumps_char c = [CHR 0x5C, CHR ''f''] \<and> CHR ''f'' \<noteq> CHR ''u''
            \<and> unescape (CHR ''f'') = Some c"
      unfolding f by (simp only: dumps_char_named unescape_named) simp
    then show ?thesis by blast
  next
    case ctl
    from dumps_char_control [OF ctl] show ?thesis by blast
  next
    case plain
    from dumps_char_plain [OF plain] plain show ?thesis by blast
  qed
qed

lemma scanstring_step:
  "scanstring (Suc n) (dumps_char c @ tail)
     = (case scanstring n tail of None \<Rightarrow> None | Some (t, r) \<Rightarrow> Some (c # t, r))"
proof -
  from dumps_char_cases [of c] consider
    (esc) e where "dumps_char c = [CHR 0x5C, e]" "e \<noteq> CHR ''u''" "unescape e = Some c"
    | (uni) "dumps_char c = CHR 0x5C # CHR ''u'' # ''00'' @ hex2 c"
    | (plain) "dumps_char c = [c]" "c \<noteq> CHR 0x22" "c \<noteq> CHR 0x5C" "\<not> in_range 0 0x1F c"
    by blast
  then show ?thesis
  proof cases
    case esc
    from scanstring_escape [OF esc(2,3), of n tail] esc(1) show ?thesis
      by (simp del: scanstring.simps)
  next
    case uni
    define body where "body = ''00'' @ hex2 c @ tail"
    have d: "dumps_char c @ tail = CHR 0x5C # CHR ''u'' # body"
      by (simp add: uni body_def)
    have dr: "drop 4 body = tail" by (simp add: hex2_def body_def)
    have hx: "hex4 (take 4 body) = Some (of_char c)"
      unfolding body_def by (rule hex4_hex2)
    have cc: "char_of (of_char c :: nat) = c" by simp
    from scanstring_unicode [OF hx of_char_lt_256, of n]
    have "scanstring (Suc n) (CHR 0x5C # CHR ''u'' # body)
            = (case scanstring n tail of None \<Rightarrow> None | Some (t, r) \<Rightarrow> Some (c # t, r))"
      by (simp only: dr cc)
    then show ?thesis by (simp only: d)
  next
    case plain
    from scanstring_plain [OF plain(2,3,4), of n tail] plain(1) show ?thesis
      by (simp del: scanstring.simps)
  qed
qed

lemma scanstring_dumps:
  "length s < n \<Longrightarrow>
   scanstring n (concat (map dumps_char s) @ CHR 0x22 # rest) = Some (s, rest)"
proof (induction s arbitrary: n)
  case Nil
  then obtain k where "n = Suc k" by (cases n) auto
  then show ?case by simp
next
  case (Cons c s)
  then obtain k where k: "n = Suc k" "length s < k" by (cases n) auto
  from Cons.IH [OF k(2)] show ?case
    unfolding k(1) by (simp add: scanstring_step del: scanstring.simps)
qed

lemma length_dumps_char: "1 \<le> length (dumps_char c)"
  by (simp add: dumps_char_def hex2_def)

lemma length_concat_dumps_char: "length s \<le> length (concat (map dumps_char s))"
proof (induction s)
  case (Cons c s)
  with length_dumps_char [of c] show ?case by simp
qed simp

lemma skip_ws_id: "s = [] \<or> \<not> is_ws (hd s) \<Longrightarrow> skip_ws s = s"
  by (cases s) (auto simp: skip_ws_def)

lemma skip_ws_indent: "skip_ws (indent level @ s) = skip_ws s"
proof -
  have "\<forall>c \<in> set (indent level). is_ws c"
    by (auto simp: indent_def nl_def is_ws_def)
  then show ?thesis by (simp add: skip_ws_def dropWhile_append)
qed

lemma value_end_indent [simp]: "value_end (indent level @ s)"
  by (simp add: value_end_def indent_def nl_def)

lemma value_end_comma [simp]: "value_end (CHR '','' # s)"
  by (simp add: value_end_def)

lemma value_start_facts:
  "value_start c \<Longrightarrow> \<not> is_ws c \<and> c \<noteq> CHR '']'' \<and> c \<noteq> CHR ''}''"
  by (auto simp: value_start_def is_ws_def isdigit_def in_range_def)

lemma hd_str_int: "str_int i \<noteq> [] \<and> (hd (str_int i) = CHR ''-'' \<or> isdigit (hd (str_int i)))"
proof -
  have "hd (str_nat m) \<in> set (str_nat m)" for m by simp
  then have "isdigit (hd (str_nat m))" for m by (rule str_nat_digits)
  then show ?thesis by (simp add: str_int_def)
qed

lemma dumps_at_start: "dumps_at level v \<noteq> [] \<and> value_start (hd (dumps_at level v))"
proof (cases v)
  case (JInt i)
  with hd_str_int [of i] show ?thesis by (auto simp: value_start_def)
qed (auto simp: value_start_def dumps_str_def)

lemma skip_ws_dumps_at: "skip_ws (dumps_at level v @ s) = dumps_at level v @ s"
  using dumps_at_start [of level v] value_start_facts [of "hd (dumps_at level v)"]
  by (intro skip_ws_id) auto

lemma parse_value_null: "parse_value (Suc n) (''null'' @ rest) = Some (JNull, rest)"
  by simp

lemma parse_value_true: "parse_value (Suc n) (''true'' @ rest) = Some (JBool True, rest)"
  by simp

lemma parse_value_false: "parse_value (Suc n) (''false'' @ rest) = Some (JBool False, rest)"
  by simp

lemma parse_value_number:
  assumes "s \<noteq> []" "hd s = CHR ''-'' \<or> isdigit (hd s)"
  shows "parse_value (Suc n) s = parse_number s"
proof -
  from assms(2) have h: "hd s \<noteq> CHR 0x22" "hd s \<noteq> CHR ''{''" "hd s \<noteq> CHR ''[''"
    "hd s \<noteq> CHR ''n''" "hd s \<noteq> CHR ''t''" "hd s \<noteq> CHR ''f''"
    by (auto simp: isdigit_def in_range_def)
  from assms(1) have t: "hd (take 4 s) = hd s" "hd (take 5 s) = hd s"
    by (cases s; simp)+
  from h t have "take 4 s \<noteq> ''null''" "take 4 s \<noteq> ''true''" "take 5 s \<noteq> ''false''"
    by (metis list.sel(1))+
  with assms(1) h show ?thesis by simp
qed

lemma parse_value_int:
  "value_end rest \<Longrightarrow> parse_value (Suc n) (str_int i @ rest) = Some (JInt i, rest)"
  using hd_str_int [of i] parse_value_number [of "str_int i @ rest" n]
  by (simp add: parse_number_str_int)

lemma scan_dumps_str:
  "length t < n \<Longrightarrow> scanstring n (tl (dumps_str t @ rest)) = Some (t, rest)"
  by (simp add: dumps_str_def scanstring_dumps del: scanstring.simps)

lemma length_dumps_str: "length t + 2 \<le> length (dumps_str t)"
  using length_concat_dumps_char [of t] by (simp add: dumps_str_def)

lemma parse_value_str: "parse_value (Suc n) (dumps_str t @ rest) = Some (JStr t, rest)"
proof -
  have h: "dumps_str t @ rest \<noteq> []" "hd (dumps_str t @ rest) = CHR 0x22"
    by (simp_all add: dumps_str_def)
  have "length t < length (dumps_str t @ rest)"
    using length_dumps_str [of t] by simp
  then have "scanstring (length (dumps_str t @ rest)) (tl (dumps_str t @ rest)) = Some (t, rest)"
    by (rule scan_dumps_str)
  with h show ?thesis by (simp del: scanstring.simps)
qed

lemma dict_set_new: "k \<notin> fst ` set d \<Longrightarrow> dict_set k v d = d @ [(k, v)]"
  by (induction d) auto

lemma parse_array_items:
  assumes IH: "\<And>x n level rest. x \<in> set xs \<Longrightarrow> need x \<le> n \<Longrightarrow> value_end rest \<Longrightarrow>
                 parse_value n (dumps_at level x @ rest) = Some (x, rest)"
    and ne: "xs \<noteq> []"
  shows "sum_list (map (\<lambda>x. Suc (need x)) xs) \<le> n \<Longrightarrow>
         parse_array n (join (CHR '','' # indent level) (map (dumps_at level) xs)
                          @ indent outer @ CHR '']'' # rest) acc
           = Some (JArr (acc @ xs), rest)"
  using ne IH
proof (induction xs arbitrary: n acc rule: list_nonempty_induct)
  case (single x)
  then obtain k where k: "n = Suc k" "need x \<le> k" by (cases n) auto
  have "parse_value k (dumps_at level x @ indent outer @ CHR '']'' # rest)
          = Some (x, indent outer @ CHR '']'' # rest)"
    by (rule single.prems(2)) (simp_all add: k)
  moreover have "skip_ws (indent outer @ CHR '']'' # rest) = CHR '']'' # rest"
    by (simp add: skip_ws_indent skip_ws_id is_ws_def)
  ultimately show ?case by (simp add: k)
next
  case (cons x xs)
  then obtain k where k: "n = Suc k" "need x \<le> k"
    "sum_list (map (\<lambda>x. Suc (need x)) xs) \<le> k" by (cases n) auto
  obtain y ys where ys: "xs = y # ys" using cons.hyps by (cases xs) auto
  let ?sep = "CHR '','' # indent level"
  let ?tail = "join ?sep (map (dumps_at level) xs) @ indent outer @ CHR '']'' # rest"
  have j: "join ?sep (map (dumps_at level) (x # xs)) @ indent outer @ CHR '']'' # rest
             = dumps_at level x @ CHR '','' # indent level @ ?tail"
    by (simp add: ys)
  have pv: "parse_value k (dumps_at level x @ CHR '','' # indent level @ ?tail)
              = Some (x, CHR '','' # indent level @ ?tail)"
    by (rule cons.prems(2)) (simp_all add: k)
  have sk1: "skip_ws (CHR '','' # indent level @ ?tail) = CHR '','' # indent level @ ?tail"
    by (simp add: skip_ws_id is_ws_def)
  have "?tail = dumps_at level y @ (drop (length (dumps_at level y)) ?tail)"
    by (cases ys) (simp_all add: ys)
  then have "skip_ws ?tail = ?tail"
    by (metis skip_ws_dumps_at)
  then have sk2: "skip_ws (indent level @ ?tail) = ?tail"
    by (simp add: skip_ws_indent)
  have rec: "parse_array k ?tail (acc @ [x]) = Some (JArr ((acc @ [x]) @ xs), rest)"
    by (rule cons.IH) (use k cons.prems in auto)
  show ?case
    unfolding j k(1)
    by (simp only: parse_array.simps pv option.case prod.case Let_def sk1 list.sel sk2 rec)
       simp
qed

lemma parse_object_items:
  assumes IH: "\<And>k v n level rest. (k, v) \<in> set kvs \<Longrightarrow> need v \<le> n \<Longrightarrow> value_end rest \<Longrightarrow>
                 parse_value n (dumps_at level v @ rest) = Some (v, rest)"
    and ne: "kvs \<noteq> []"
  shows "sum_list (map (\<lambda>kv. Suc (need (snd kv))) kvs) \<le> n \<Longrightarrow>
         distinct (map fst (acc @ kvs)) \<Longrightarrow>
         parse_object n
           (join (CHR '','' # indent level)
              (map (\<lambda>(k, v). dumps_str k @ '': '' @ dumps_at level v) kvs)
            @ indent outer @ CHR ''}'' # rest) acc
           = Some (JObj (acc @ kvs), rest)"
  using ne IH
proof (induction kvs arbitrary: n acc rule: list_nonempty_induct)
  case (single kv)
  obtain k v where kv: "kv = (k, v)" by (cases kv)
  from single kv obtain m where m: "n = Suc m" "need v \<le> m" by (cases n) auto
  let ?tail = "indent outer @ CHR ''}'' # rest"
  let ?s = "dumps_str k @ '': '' @ dumps_at level v @ ?tail"
  have h: "?s \<noteq> []" "hd ?s = CHR 0x22" by (simp_all add: dumps_str_def)
  have "length k < length ?s" using length_dumps_str [of k] by simp
  then have sc: "scanstring (length ?s) (tl ?s) = Some (k, '': '' @ dumps_at level v @ ?tail)"
    by (rule scan_dumps_str)
  have sk1: "skip_ws ('': '' @ dumps_at level v @ ?tail) = '': '' @ dumps_at level v @ ?tail"
    by (simp add: skip_ws_id is_ws_def)
  have "skip_ws (CHR '' '' # dumps_at level v @ ?tail) = skip_ws (dumps_at level v @ ?tail)"
    by (simp add: skip_ws_def is_ws_def)
  then have sk2: "skip_ws (tl ('': '' @ dumps_at level v @ ?tail)) = dumps_at level v @ ?tail"
    by (simp add: skip_ws_dumps_at)
  have pv: "parse_value m (dumps_at level v @ ?tail) = Some (v, ?tail)"
    by (rule single.prems(3) [of k]) (simp_all add: kv m)
  have sk3: "skip_ws ?tail = CHR ''}'' # rest"
    by (simp add: skip_ws_indent skip_ws_id is_ws_def)
  from single.prems(2) kv have "k \<notin> fst ` set acc" by auto
  then have ds: "dict_set k v acc = acc @ [(k, v)]" by (rule dict_set_new)
  have "parse_object (Suc m) ?s acc = Some (JObj (acc @ [(k, v)]), rest)"
    using h
    by (simp only: parse_object.simps sc option.case prod.case Let_def sk1 sk2 pv sk3 ds)
       simp
  then show ?case by (simp add: kv m)
next
  case (cons kv kvs)
  obtain k v where kv: "kv = (k, v)" by (cases kv)
  from cons.prems(1) kv obtain m where m: "n = Suc m" "need v \<le> m"
    "sum_list (map (\<lambda>kv. Suc (need (snd kv))) kvs) \<le> m" by (cases n) auto
  obtain k' v' kvs' where kvs: "kvs = (k', v') # kvs'" using cons.hyps by (cases kvs) auto
  let ?sep = "CHR '','' # indent level"
  let ?items = "join ?sep (map (\<lambda>(k, v). dumps_str k @ '': '' @ dumps_at level v) kvs)
                  @ indent outer @ CHR ''}'' # rest"
  let ?tail = "CHR '','' # indent level @ ?items"
  let ?s = "dumps_str k @ '': '' @ dumps_at level v @ ?tail"
  have j: "join ?sep (map (\<lambda>(k, v). dumps_str k @ '': '' @ dumps_at level v) (kv # kvs))
             @ indent outer @ CHR ''}'' # rest = ?s"
    by (simp add: kv kvs)
  have h: "?s \<noteq> []" "hd ?s = CHR 0x22" by (simp_all add: dumps_str_def)
  have "length k < length ?s" using length_dumps_str [of k] by simp
  then have sc: "scanstring (length ?s) (tl ?s) = Some (k, '': '' @ dumps_at level v @ ?tail)"
    by (rule scan_dumps_str)
  have sk1: "skip_ws ('': '' @ dumps_at level v @ ?tail) = '': '' @ dumps_at level v @ ?tail"
    by (simp add: skip_ws_id is_ws_def)
  have "skip_ws (CHR '' '' # dumps_at level v @ ?tail) = skip_ws (dumps_at level v @ ?tail)"
    by (simp add: skip_ws_def is_ws_def)
  then have sk2: "skip_ws (tl ('': '' @ dumps_at level v @ ?tail)) = dumps_at level v @ ?tail"
    by (simp add: skip_ws_dumps_at)
  have pv: "parse_value m (dumps_at level v @ ?tail) = Some (v, ?tail)"
    by (rule cons.prems(3) [of k]) (simp_all add: kv m)
  have sk3: "skip_ws ?tail = ?tail"
    by (simp add: skip_ws_id is_ws_def)
  have "hd ?items = CHR 0x22" "?items \<noteq> []"
    by (cases kvs'; simp add: kvs dumps_str_def)+
  then have "skip_ws ?items = ?items"
    by (intro skip_ws_id) (simp add: is_ws_def)
  then have sk4: "skip_ws (indent level @ ?items) = ?items"
    by (simp add: skip_ws_indent)
  from cons.prems(2) kv have "k \<notin> fst ` set acc" by auto
  then have ds: "dict_set k v acc = acc @ [(k, v)]" by (rule dict_set_new)
  from cons.prems(2) kv have d: "distinct (map fst ((acc @ [(k, v)]) @ kvs))" by simp
  have rec: "parse_object m ?items (acc @ [(k, v)]) = Some (JObj ((acc @ [(k, v)]) @ kvs), rest)"
  proof (rule cons.IH [OF m(3) d])
    fix k v n rest level
    assume "(k, v) \<in> set kvs" "need v \<le> n" "value_end rest"
    then show "parse_value n (dumps_at level v @ rest) = Some (v, rest)"
      by (intro cons.prems(3) [of k]) simp_all
  qed
  have "parse_object (Suc m) ?s acc = Some (JObj ((acc @ [(k, v)]) @ kvs), rest)"
    using h
    by (simp only: parse_object.simps sc option.case prod.case Let_def sk1 sk2 pv sk3 ds
          list.sel sk4 rec)
       simp
  then show ?case unfolding j m(1) by (simp add: kv)
qed

text \<open>Parsing what was serialised gives the value back, with enough nested calls.\<close>

lemma parse_value_dumps_at:
  "distinct_keys v \<Longrightarrow> need v \<le> n \<Longrightarrow> value_end rest \<Longrightarrow>
   parse_value n (dumps_at level v @ rest) = Some (v, rest)"
proof (induction v arbitrary: n level rest)
  case JNull
  then obtain m where "n = Suc m" by (cases n) auto
  then show ?case using parse_value_null [of m rest] by simp
next
  case (JBool b)
  then obtain m where "n = Suc m" by (cases n) auto
  then show ?case
    using parse_value_true [of m rest] parse_value_false [of m rest] by (cases b) simp_all
next
  case (JInt i)
  then obtain m where "n = Suc m" by (cases n) auto
  with JInt show ?case using parse_value_int [of rest m i] by simp
next
  case (JStr t)
  then obtain m where "n = Suc m" by (cases n) auto
  then show ?case using parse_value_str [of m t rest] by simp
next
  case (JArr xs)
  then obtain m where m: "n = Suc m" "sum_list (map (\<lambda>x. Suc (need x)) xs) \<le> m"
    by (cases n) auto
  show ?case
  proof (cases "xs = []")
    case True
    have "skip_ws (CHR '']'' # rest) = CHR '']'' # rest"
      by (simp add: skip_ws_id is_ws_def)
    with True show ?thesis by (simp add: m)
  next
    case False
    let ?items = "join (CHR '','' # indent (Suc level)) (map (dumps_at (Suc level)) xs)
                    @ indent level @ CHR '']'' # rest"
    have d: "dumps_at level (JArr xs) @ rest = CHR ''['' # indent (Suc level) @ ?items"
      using False by simp
    obtain y ys where ys: "xs = y # ys" using False by (cases xs) auto
    have "?items = dumps_at (Suc level) y @ drop (length (dumps_at (Suc level) y)) ?items"
      by (cases ys) (simp_all add: ys)
    then have st: "skip_ws ?items = ?items" "?items \<noteq> []" "value_start (hd ?items)"
      using dumps_at_start [of "Suc level" y]
      by (metis skip_ws_dumps_at, metis append_is_Nil_conv, metis hd_append2)
    then have sk: "skip_ws (indent (Suc level) @ ?items) = ?items"
      by (simp add: skip_ws_indent)
    from st have nb: "hd ?items \<noteq> CHR '']''" using value_start_facts by blast
    have items: "parse_array m ?items [] = Some (JArr ([] @ xs), rest)"
    proof (rule parse_array_items [OF _ False m(2)])
      fix x k lv r
      assume "x \<in> set xs" "need x \<le> k" "value_end r"
      with JArr.IH [of x k r lv] JArr.prems(1)
      show "parse_value k (dumps_at lv x @ r) = Some (x, r)"
        by (simp add: list_all_iff)
    qed
    show ?thesis
      unfolding d m(1)
      by (simp only: parse_value.simps list.sel sk Let_def items nb) simp
  qed
next
  case (JObj kvs)
  then obtain m where m: "n = Suc m" "sum_list (map (\<lambda>kv. Suc (need (snd kv))) kvs) \<le> m"
    by (cases n) auto
  show ?case
  proof (cases "kvs = []")
    case True
    have "skip_ws (CHR ''}'' # rest) = CHR ''}'' # rest"
      by (simp add: skip_ws_id is_ws_def)
    with True show ?thesis by (simp add: m)
  next
    case False
    let ?items = "join (CHR '','' # indent (Suc level))
                    (map (\<lambda>(k, v). dumps_str k @ '': '' @ dumps_at (Suc level) v) kvs)
                    @ indent level @ CHR ''}'' # rest"
    have d: "dumps_at level (JObj kvs) @ rest = CHR ''{'' # indent (Suc level) @ ?items"
      using False by simp
    obtain k v kvs' where kvs: "kvs = (k, v) # kvs'" using False by (cases kvs) auto
    have st: "hd ?items = CHR 0x22" "?items \<noteq> []"
      by (cases kvs'; simp add: kvs dumps_str_def)+
    then have "skip_ws ?items = ?items"
      by (intro skip_ws_id) (simp add: is_ws_def)
    then have sk: "skip_ws (indent (Suc level) @ ?items) = ?items"
      by (simp add: skip_ws_indent)
    from st have nb: "hd ?items \<noteq> CHR ''}''" by simp
    from JObj.prems(1) have dk: "distinct (map fst ([] @ kvs))" by simp
    have items: "parse_object m ?items [] = Some (JObj ([] @ kvs), rest)"
    proof (rule parse_object_items [OF _ False m(2) dk])
      fix k v j lv r
      assume kv: "(k, v) \<in> set kvs" and "need v \<le> j" "value_end r"
      moreover from kv JObj.prems(1) have "distinct_keys v"
        by (auto simp: list_all_iff)
      moreover from kv have "v \<in> Basic_BNFs.snds (k, v)" by simp
      ultimately show "parse_value j (dumps_at lv v @ r) = Some (v, r)"
        using JObj.IH [of "(k, v)" v j r lv] by simp
    qed
    show ?thesis
      unfolding d m(1)
      by (simp only: parse_value.simps list.sel sk Let_def items nb) simp
  qed
qed

lemma length_join:
  "ys \<noteq> [] \<Longrightarrow>
   length (join sep ys) + length sep = sum_list (map (\<lambda>y. length y + length sep) ys)"
proof (induction ys rule: list_nonempty_induct)
  case (single y)
  then show ?case by simp
next
  case (cons y ys)
  then obtain z zs where "ys = z # zs" by (cases ys) auto
  with cons show ?case by simp
qed

lemma sum_list_mono_map:
  "(\<And>x. x \<in> set xs \<Longrightarrow> f x \<le> (g x :: nat)) \<Longrightarrow> sum_list (map f xs) \<le> sum_list (map g xs)"
  by (induction xs) (auto intro: add_mono)

lemma length_indent: "1 \<le> length (indent level)"
  by (simp add: indent_def nl_def)

lemma need_le_length: "need v \<le> length (dumps_at level v)"
proof (induction v arbitrary: level)
  case (JInt i)
  have "str_int i \<noteq> []" using hd_str_int [of i] by simp
  then have "1 \<le> length (str_int i)" by (cases "str_int i") auto
  then show ?case by simp
next
  case (JStr t)
  then show ?case using length_dumps_str [of t] by simp
next
  case (JArr xs)
  show ?case
  proof (cases "xs = []")
    case True
    then show ?thesis by simp
  next
    case False
    let ?sep = "CHR '','' # indent (Suc level)"
    let ?ys = "map (dumps_at (Suc level)) xs"
    have "sum_list (map (\<lambda>x. Suc (need x)) xs)
            \<le> sum_list (map (\<lambda>x. length (dumps_at (Suc level) x) + length ?sep) xs)"
    proof (rule sum_list_mono_map)
      fix x assume "x \<in> set xs"
      from JArr.IH [OF this, of "Suc level"]
      show "Suc (need x) \<le> length (dumps_at (Suc level) x) + length ?sep" by simp
    qed
    also have "\<dots> = sum_list (map (\<lambda>y. length y + length ?sep) ?ys)"
      by (simp add: comp_def)
    also have "\<dots> = length (join ?sep ?ys) + length ?sep"
      by (rule length_join [symmetric]) (use False in simp)
    finally have "need (JArr xs) \<le> Suc (length (join ?sep ?ys) + length ?sep)" by simp
    also have "\<dots> \<le> length (dumps_at level (JArr xs))"
      using False length_indent [of level] by simp
    finally show ?thesis .
  qed
next
  case (JObj kvs)
  show ?case
  proof (cases "kvs = []")
    case True
    then show ?thesis by simp
  next
    case False
    let ?sep = "CHR '','' # indent (Suc level)"
    let ?item = "\<lambda>(k, v). dumps_str k @ '': '' @ dumps_at (Suc level) v"
    let ?ys = "map ?item kvs"
    have "sum_list (map (\<lambda>kv. Suc (need (snd kv))) kvs)
            \<le> sum_list (map (\<lambda>kv. length (?item kv) + length ?sep) kvs)"
    proof (rule sum_list_mono_map)
      fix kv assume kv: "kv \<in> set kvs"
      obtain k v where e: "kv = (k, v)" by (cases kv)
      with kv have "v \<in> Basic_BNFs.snds kv" by simp
      from JObj.IH [OF kv this, of "Suc level"] e
      show "Suc (need (snd kv)) \<le> length (?item kv) + length ?sep" by simp
    qed
    also have "\<dots> = sum_list (map (\<lambda>y. length y + length ?sep) ?ys)"
      by (simp add: comp_def)
    also have "\<dots> = length (join ?sep ?ys) + length ?sep"
      by (rule length_join [symmetric]) (use False in simp)
    finally have "need (JObj kvs) \<le> Suc (length (join ?sep ?ys) + length ?sep)" by simp
    also have "\<dots> \<le> length (dumps_at level (JObj kvs))"
      using False length_indent [of level] by simp
    finally show ?thesis .
  qed
qed simp_all

text \<open>
  Serialising and parsing again gives the value back; the line break that \<open>print\<close> adds
  does not matter.
\<close>

lemma loads_dumps:
  assumes "distinct_keys v"
  shows "loads (dumps v) = Some v" and "loads (dumps v @ nl) = Some v"
proof -
  have n: "need v \<le> Suc (length (dumps v))" "need v \<le> Suc (length (dumps v @ nl))"
    using need_le_length [of v 0] by (simp_all add: dumps_def)
  have "parse_value (Suc (length (dumps v))) (dumps_at 0 v @ []) = Some (v, [])"
    by (rule parse_value_dumps_at [OF assms n(1)]) (simp add: value_end_def)
  moreover have "skip_ws (dumps v) = dumps v"
    using skip_ws_dumps_at [of 0 v "[]"] by (simp add: dumps_def)
  ultimately show "loads (dumps v) = Some v"
    by (simp add: loads_def dumps_def skip_ws_def)
  have "parse_value (Suc (length (dumps v @ nl))) (dumps_at 0 v @ nl) = Some (v, nl)"
    by (rule parse_value_dumps_at [OF assms n(2)]) (simp add: value_end_def nl_def)
  moreover have "skip_ws (dumps v @ nl) = dumps v @ nl"
    using skip_ws_dumps_at [of 0 v nl] by (simp add: dumps_def)
  moreover have "skip_ws nl = []" by (simp add: skip_ws_def nl_def is_ws_def)
  ultimately show "loads (dumps v @ nl) = Some v"
    by (simp add: loads_def dumps_def)
qed

text \<open>
  Claim C9. Let the run fetch a song record, a dictionary with string keys that holds every
  key once at every depth, and let the view be the metadata alone in the structured format.
  Then the output is the serialised record, whatever the lyrics text is, and parsing the
  output gives the record back: the same keys with the same values in the same order,
  nothing dropped, added or altered. When the output goes to the standard output, the run
  ends with status 0 and what it printed parses to the record.
\<close>

theorem metadata_json_round_trip:
  assumes tok: "GENIUS_ACCESS_TOKEN w \<noteq> []" "GENIUS_ACCESS_TOKEN w \<noteq> token_placeholder"
    and lm: "fst (link_metadata w a io0) = Inr (track, artist)" "track \<noteq> []"
    and found: "search_api w (GENIUS_ACCESS_TOKEN w) (strip (track @ '' '' @ artist))
                  = HTTPSuccess hits"
    and sel: "select_hit artist hits = Some i" "i \<noteq> 0"
    and fetched: "song_api w (GENIUS_ACCESS_TOKEN w) i = HTTPSuccess song"
    and mode: "output_fmt a = OutJson" "data a" "\<not> lyrics a"
    and wf: "distinct_keys (JObj song)"
  shows "compose_output a song lyrics_text = Inr (dumps (JObj song))
       \<and> loads (dumps (JObj song)) = Some (JObj song)
       \<and> (file_folder a = None
            \<longrightarrow> fst (run w a) = 0
              \<and> stdout (snd (run w a)) = [dumps (JObj song) @ nl]
              \<and> loads (dumps (JObj song) @ nl) = Some (JObj song))"
proof -
  have comp: "\<And>t. compose_output a song t = Inr (dumps (JObj song))"
    using mode by (simp add: compose_output_def)
  have rt: "loads (dumps (JObj song)) = Some (JObj song)"
    "loads (dumps (JObj song) @ nl) = Some (JObj song)"
    using loads_dumps [OF wf] by simp_all
  have out: "fst (run w a) = 0 \<and> stdout (snd (run w a)) = [dumps (JObj song) @ nl]"
    if none: "file_folder a = None"
  proof -
    let ?s3 = "send (SongRequest (GENIUS_ACCESS_TOKEN w) i)
                 (send (SearchRequest (GENIUS_ACCESS_TOKEN w) (strip (track @ '' '' @ artist)))
                    (snd (link_metadata w a io0)))"
    have m: "main w a io0 = (Inr (), write_stdout (dumps (JObj song) @ nl) ?s3)"
      using mode none
      by (simp add: main_to_output [OF tok lm found sel fetched] comp emit_def)
    have "stdout (snd (link_metadata w a io0)) = []"
      by (simp add: link_metadata_frame io0_def)
    then have "stdout (write_stdout (dumps (JObj song) @ nl) ?s3) = [dumps (JObj song) @ nl]"
      by (simp add: write_stdout_def send_def)
    with m show ?thesis by (simp add: run_def)
  qed
  from comp rt out show ?thesis by blast
qed

text \<open>The example record, fetched and printed as structured metadata.\<close>

theorem metadata_json_round_trip_witness:
  "fst (run (world_of title_song_artist (HTTPSuccess hits_one) (HTTPSuccess song_example)
               (PageFailure ''404 Not Found'')) args_data_json) = 0
   \<and> stdout (snd (run (world_of title_song_artist (HTTPSuccess hits_one)
                          (HTTPSuccess song_example) (PageFailure ''404 Not Found''))
                     args_data_json))
       = [dumps (JObj song_example) @ nl]
   \<and> loads (dumps (JObj song_example) @ nl) = Some (JObj song_example)
   \<and> loads (dumps (JObj song_example)) = Some (JObj song_example)"
proof -
  let ?w = "world_of title_song_artist (HTTPSuccess hits_one) (HTTPSuccess song_example)
                 (PageFailure ''404 Not Found'')"
  have tok: "GENIUS_ACCESS_TOKEN ?w \<noteq> []" "GENIUS_ACCESS_TOKEN ?w \<noteq> token_placeholder"
    by (simp_all add: world_of_token)
  have "link_metadata ?w args_data_json io0
          = get_spotify_metadata (\<lambda>target. title_song_artist) ''u'' io0"
    by (simp add: link_metadata_def world_of_def args_data_json_def opt_truthy_def)
  moreover have "fst (get_spotify_metadata (\<lambda>target. title_song_artist) ''u'' io0)
          = Inr (''Song'', ''Artist'')"
    by code_simp
  ultimately have lm: "fst (link_metadata ?w args_data_json io0) = Inr (''Song'', ''Artist'')"
    "''Song'' \<noteq> []"
    by simp_all
  have found: "search_api ?w (GENIUS_ACCESS_TOKEN ?w) (strip (''Song'' @ '' '' @ ''Artist''))
                 = HTTPSuccess hits_one"
    by (simp add: world_of_def)
  have sel: "select_hit ''Artist'' hits_one = Some 5" "(5::int) \<noteq> 0"
    by code_simp+
  have fetched: "song_api ?w (GENIUS_ACCESS_TOKEN ?w) 5 = HTTPSuccess song_example"
    by (simp add: world_of_def)
  have mode: "output_fmt args_data_json = OutJson" "data args_data_json"
    "\<not> lyrics args_data_json"
    by (simp_all add: args_data_json_def)
  have wf: "distinct_keys (JObj song_example)"
    by code_simp
  have none: "file_folder args_data_json = None"
    by (simp add: args_data_json_def)
  note th = metadata_json_round_trip [OF tok lm found sel fetched mode wf, of "[]"]
  from th none show ?thesis by blast
qed

end
